theory Spec2Isabelle
  imports Complex_Main "HOL-Library.Sublist"
begin

section \<open>Strings of the JavaScript source\<close>

text \<open>
  A JavaScript string is a sequence of UTF-16 code units. The embedding covers the code
  units U+0000 to U+00FF (ASCII and the Latin-1 supplement), one \<^typ>\<open>char\<close> each, so that
  \<open>length\<close> is the \<open>.length\<close> of the source. \<open>toLowerCase\<close> maps \<open>A\<close>-\<open>Z\<close> and the
  Latin-1 capitals U+00C0-U+00DE (U+00D7, the multiplication sign, apart) to their small
  letters and leaves every other code unit of that range alone.
\<close>

definition upperChars :: string where
  "upperChars = ''ABCDEFGHIJKLMNOPQRSTUVWXYZ'' @
     [CHR 0xC0, CHR 0xC1, CHR 0xC2, CHR 0xC3, CHR 0xC4, CHR 0xC5, CHR 0xC6, CHR 0xC7,
      CHR 0xC8, CHR 0xC9, CHR 0xCA, CHR 0xCB, CHR 0xCC, CHR 0xCD, CHR 0xCE, CHR 0xCF,
      CHR 0xD0, CHR 0xD1, CHR 0xD2, CHR 0xD3, CHR 0xD4, CHR 0xD5, CHR 0xD6,
      CHR 0xD8, CHR 0xD9, CHR 0xDA, CHR 0xDB, CHR 0xDC, CHR 0xDD, CHR 0xDE]"

definition lowerChars :: string where
  "lowerChars = ''abcdefghijklmnopqrstuvwxyz'' @
     [CHR 0xE0, CHR 0xE1, CHR 0xE2, CHR 0xE3, CHR 0xE4, CHR 0xE5, CHR 0xE6, CHR 0xE7,
      CHR 0xE8, CHR 0xE9, CHR 0xEA, CHR 0xEB, CHR 0xEC, CHR 0xED, CHR 0xEE, CHR 0xEF,
      CHR 0xF0, CHR 0xF1, CHR 0xF2, CHR 0xF3, CHR 0xF4, CHR 0xF5, CHR 0xF6,
      CHR 0xF8, CHR 0xF9, CHR 0xFA, CHR 0xFB, CHR 0xFC, CHR 0xFD, CHR 0xFE]"

definition toLowerChar :: "char \<Rightarrow> char" where
  "toLowerChar c = (case map_of (zip upperChars lowerChars) c of Some l \<Rightarrow> l | None \<Rightarrow> c)"

definition toLowerCase :: "string \<Rightarrow> string" where
  "toLowerCase s = map toLowerChar s"

text \<open>
  The class \<open>\s\<close> of a regular expression, which is also what \<open>trim\<close> removes: tab, line
  feed, vertical tab, form feed, carriage return, space and the no-break space.
\<close>

definition isSpace :: "char \<Rightarrow> bool" where
  "isSpace c = (c = CHR 0x09 \<or> c = CHR 0x0A \<or> c = CHR 0x0B \<or> c = CHR 0x0C \<or> c = CHR 0x0D
     \<or> c = CHR '' '' \<or> c = CHR 0xA0)"

definition isDigit :: "char \<Rightarrow> bool" where
  "isDigit c = (c = CHR ''0'' \<or> c = CHR ''1'' \<or> c = CHR ''2'' \<or> c = CHR ''3'' \<or> c = CHR ''4''
     \<or> c = CHR ''5'' \<or> c = CHR ''6'' \<or> c = CHR ''7'' \<or> c = CHR ''8'' \<or> c = CHR ''9'')"

text \<open>The dot of a regular expression matches every code unit but a line terminator.\<close>

definition isLineTerminator :: "char \<Rightarrow> bool" where
  "isLineTerminator c = (c = CHR 0x0A \<or> c = CHR 0x0D)"

definition js_trim :: "string \<Rightarrow> string" where
  "js_trim s = rev (dropWhile isSpace (rev (dropWhile isSpace s)))"

text \<open>\<open>s.includes(t)\<close>: \<open>t\<close> occurs in \<open>s\<close> as a contiguous run.\<close>

fun js_includes :: "string \<Rightarrow> string \<Rightarrow> bool" where
  "js_includes [] t = (t = [])"
| "js_includes (c # cs) t = (prefix t (c # cs) \<or> js_includes cs t)"

text \<open>
  \<open>s.split(sep)\<close> for a separator of one code unit, generalised to a class of separators:
  every separator ends a token, so the empty string gives one empty token, and adjacent
  separators give empty tokens between them.
\<close>

fun splitOn :: "(char \<Rightarrow> bool) \<Rightarrow> string \<Rightarrow> string list" where
  "splitOn sep [] = [] # []"
| "splitOn sep (c # cs) =
     (if sep c then [] # splitOn sep cs
      else (case splitOn sep cs of [] \<Rightarrow> [c] # [] | t # ts \<Rightarrow> (c # t) # ts))"

definition js_split :: "char \<Rightarrow> string \<Rightarrow> string list" where
  "js_split sep s = splitOn (\<lambda>c. c = sep) s"

text \<open>
  \<open>s.replace(/re/g, r)\<close> by a matcher that gives the length of the match of \<open>re\<close> at the
  head of the rest of the input, if there is one. The scan goes from left to right; after a
  match it goes on behind the match; an empty match puts the replacement in and moves on by
  one code unit. None of the expressions of the source looks behind the position it is at.
\<close>

fun replaceAll :: "(string \<Rightarrow> nat option) \<Rightarrow> string \<Rightarrow> string \<Rightarrow> string" where
  "replaceAll m r [] = (case m [] of Some _ \<Rightarrow> r | None \<Rightarrow> [])"
| "replaceAll m r (c # cs) =
     (case m (c # cs) of
        None \<Rightarrow> c # replaceAll m r cs
      | Some 0 \<Rightarrow> r @ c # replaceAll m r cs
      | Some (Suc n) \<Rightarrow> r @ replaceAll m r (drop n cs))"

text \<open>
  An alternation \<open>a|b|c\<close> under the flag \<open>i\<close>, with nothing behind it that could fail: the
  first alternative, in the order written, that the input starts with when case is
  ignored. The alternatives are given in small letters.
\<close>

definition ciPrefix :: "string \<Rightarrow> string \<Rightarrow> bool" where
  "ciPrefix p s = prefix p (toLowerCase s)"

definition matchAlt :: "string list \<Rightarrow> string \<Rightarrow> nat option" where
  "matchAlt alts s = map_option length (List.find (\<lambda>p. ciPrefix p s) alts)"

text \<open>\<open>s.replace(pat, '')\<close> for a string \<open>pat\<close>: the first occurrence only.\<close>

fun removeFirst :: "string \<Rightarrow> string \<Rightarrow> string" where
  "removeFirst pat [] = []"
| "removeFirst pat (c # cs) =
     (if prefix pat (c # cs) then drop (length pat) (c # cs) else c # removeFirst pat cs)"

section \<open>Field cleaners\<close>

text \<open>\<open>/Dr\.|Prof\.|Professor|Mr\.|Ms\.|Mrs\./gi\<close>\<close>

definition honorifics :: "string list" where
  "honorifics = [''dr.'', ''prof.'', ''professor'', ''mr.'', ''ms.'', ''mrs.'']"

definition matchHonorific :: "string \<Rightarrow> nat option" where
  "matchHonorific s = matchAlt honorifics s"

text \<open>
  \<open>/,\s*(Jr|Sr|III|II)\.?/gi\<close>: a comma, the longest run of white space (a shorter run
  would leave white space in front of the group, which starts with a letter), the first
  alternative that fits, and a full stop if one follows.
\<close>

definition generations :: "string list" where
  "generations = [''jr'', ''sr'', ''iii'', ''ii'']"

definition matchSuffix :: "string \<Rightarrow> nat option" where
  "matchSuffix s =
     (case s of
        [] \<Rightarrow> None
      | c # cs \<Rightarrow>
          if c \<noteq> CHR '','' then None
          else (let ws = takeWhile isSpace cs; r = dropWhile isSpace cs in
            case matchAlt generations r of
              None \<Rightarrow> None
            | Some k \<Rightarrow>
                Some (1 + length ws + k + (if prefix ''.'' (drop k r) then 1 else 0))))"

text \<open>\<open>/\s+/g\<close>\<close>

definition matchSpaces :: "string \<Rightarrow> nat option" where
  "matchSpaces s = (let n = length (takeWhile isSpace s) in if n = 0 then None else Some n)"

definition collapseSpaces :: "string \<Rightarrow> string" where
  "collapseSpaces s = replaceAll matchSpaces '' '' s"

definition cleanName :: "string \<Rightarrow> string" where
  "cleanName name =
     (if name = [] then []
      else js_trim (collapseSpaces (replaceAll matchSuffix [] (replaceAll matchHonorific [] name))))"

text \<open>
  \<open>/^\s*[-...]\s*/\<close>, once, at the start. The class of the source file holds the hyphen and
  the code units U+00E2, U+20AC and U+00A2; the second is outside the range of the embedding.
\<close>

definition stripBullet :: "string \<Rightarrow> string" where
  "stripBullet s =
     (case dropWhile isSpace s of
        [] \<Rightarrow> s
      | c # r \<Rightarrow> if c = CHR ''-'' \<or> c = CHR 0xE2 \<or> c = CHR 0xA2 then dropWhile isSpace r else s)"

definition cleanTitle :: "string \<Rightarrow> string" where
  "cleanTitle title = (if title = [] then [] else js_trim (collapseSpaces (stripBullet title)))"

definition cleanEmail :: "string \<Rightarrow> string" where
  "cleanEmail email =
     (if email = [] \<or> \<not> js_includes email ''@'' then [] else js_trim (toLowerCase email))"

text \<open>
  \<open>/^(Phone|Tel|Office):\s*/i\<close>, once, at the start, and then \<open>/[^\d\-\(\)\.\s\+]/g\<close>, which
  deletes single code units. The colon that must follow the label is part of each
  alternative here, so that an alternative fits only if the colon does.
\<close>

definition stripPhoneLabel :: "string \<Rightarrow> string" where
  "stripPhoneLabel s =
     (case matchAlt [''phone:'', ''tel:'', ''office:''] s of
        None \<Rightarrow> s
      | Some n \<Rightarrow> dropWhile isSpace (drop n s))"

definition phoneChar :: "char \<Rightarrow> bool" where
  "phoneChar c = (isDigit c \<or> c = CHR ''-'' \<or> c = CHR ''('' \<or> c = CHR '')'' \<or> c = CHR ''.''
     \<or> isSpace c \<or> c = CHR ''+'')"

definition cleanPhone :: "string \<Rightarrow> string" where
  "cleanPhone phone =
     (if phone = [] then [] else js_trim (filter phoneChar (stripPhoneLabel phone)))"

section \<open>Confidence scorer\<close>

definition calculateEmailConfidence :: "string \<Rightarrow> string \<Rightarrow> real" where
  "calculateEmailConfidence name email =
     (if name = [] \<or> email = [] \<or> length email < 5 then 0.1
      else
        (let nameParts = filter (\<lambda>part. length part > 1) (js_split CHR '' '' (toLowerCase name)) in
         if length nameParts < 2 then 0.3
         else
           (let firstName = nameParts ! 0;
                lastName = nameParts ! (length nameParts - 1);
                emailLocal = toLowerCase (js_split CHR ''@'' email ! 0)
            in
              if emailLocal = firstName @ ''.'' @ lastName then 0.95
              else if emailLocal = firstName @ ''.'' @ [lastName ! 0] then 0.85
              else if emailLocal = [firstName ! 0] @ ''.'' @ lastName then 0.85
              else if js_includes emailLocal firstName \<and> js_includes emailLocal lastName then 0.75
              else if js_includes emailLocal firstName then 0.6
              else if js_includes emailLocal lastName then 0.5
              else 0.1)))"

text \<open>
  The same function with the values that can be \<open>undefined\<close> made explicit. Reading
  \<open>xs[i]\<close> outside the array or the string gives \<open>undefined\<close> (\<open>None\<close>); calling a method
  on \<open>undefined\<close> or reading an index of it raises \<open>TypeError\<close>; in a template literal
  \<open>undefined\<close> is written out as the word. The places of the source that could raise are
  \<open>email.split('@')[0].toLowerCase()\<close>, \<open>lastName[0]\<close> and \<open>firstName[0]\<close>.
\<close>

datatype error = TypeError

definition js_at :: "'a list \<Rightarrow> nat \<Rightarrow> 'a option" where
  "js_at xs i = (if i < length xs then Some (xs ! i) else None)"

definition js_template :: "string option \<Rightarrow> string" where
  "js_template v = (case v of None \<Rightarrow> ''undefined'' | Some s \<Rightarrow> s)"

definition calculateEmailConfidenceChecked :: "string \<Rightarrow> string \<Rightarrow> error + real" where
  "calculateEmailConfidenceChecked name email =
     (if name = [] \<or> email = [] \<or> length email < 5 then Inr 0.1
      else
        (let nameParts = filter (\<lambda>part. length part > 1) (js_split CHR '' '' (toLowerCase name)) in
         if length nameParts < 2 then Inr 0.3
         else
           (let firstName = js_at nameParts 0;
                lastName = js_at nameParts (length nameParts - 1)
            in
              case js_at (js_split CHR ''@'' email) 0 of
                None \<Rightarrow> Inl TypeError
              | Some beforeAt \<Rightarrow>
                  (let emailLocal = toLowerCase beforeAt in
                   if emailLocal = js_template firstName @ ''.'' @ js_template lastName then Inr 0.95
                   else
                     (case lastName of
                        None \<Rightarrow> Inl TypeError
                      | Some l \<Rightarrow>
                          if emailLocal =
                             js_template firstName @ ''.'' @ js_template (map_option (\<lambda>c. [c]) (js_at l 0))
                          then Inr 0.85
                          else
                            (case firstName of
                               None \<Rightarrow> Inl TypeError
                             | Some f \<Rightarrow>
                                 if emailLocal = js_template (map_option (\<lambda>c. [c]) (js_at f 0)) @ ''.'' @ l
                                 then Inr 0.85
                                 else if js_includes emailLocal f \<and> js_includes emailLocal l then Inr 0.75
                                 else if js_includes emailLocal f then Inr 0.6
                                 else if js_includes emailLocal l then Inr 0.5
                                 else Inr 0.1))))))"

section \<open>Profile link resolver\<close>

record ProfileLinkEntry =
  href :: string
  linkText :: string
  linkTitle :: string

definition textMatch :: "string \<Rightarrow> ProfileLinkEntry \<Rightarrow> bool" where
  "textMatch name link =
     (js_includes (toLowerCase (linkText link)) (toLowerCase name) \<or>
      js_includes (toLowerCase name) (toLowerCase (linkText link)))"

definition urlMatch :: "string \<Rightarrow> string \<Rightarrow> ProfileLinkEntry \<Rightarrow> bool" where
  "urlMatch firstName lastName link =
     (let url = toLowerCase (href link) in
        (js_includes url firstName \<and> js_includes url lastName) \<or>
        js_includes url (firstName @ ''-'' @ lastName) \<or>
        js_includes url (lastName @ ''-'' @ firstName))"

definition findProfileLink :: "string \<Rightarrow> ProfileLinkEntry list \<Rightarrow> string" where
  "findProfileLink name links =
     (if name = [] \<or> length links = 0 then []
      else
        (let nameParts = js_split CHR '' '' (toLowerCase name);
             firstName = nameParts ! 0;
             lastName = nameParts ! (length nameParts - 1)
         in
           case List.find (textMatch name) links of
             Some exactMatch \<Rightarrow> href exactMatch
           | None \<Rightarrow>
               (case List.find (urlMatch firstName lastName) links of
                  Some m \<Rightarrow> href m
                | None \<Rightarrow> [])))"

section \<open>Context extractors\<close>

text \<open>
  \<open>/(.*?University[^|]*)/\<close>, for any word in the place of \<open>University\<close>: from a start
  position the lazy \<open>.*?\<close> goes on, one code unit at a time and never over a line
  terminator, to the first place where the word stands; \<open>[^|]*\<close> then takes everything up
  to the next pipe. The search tries the start positions from left to right.
\<close>

fun matchLazyAt :: "string \<Rightarrow> string \<Rightarrow> nat option" where
  "matchLazyAt w [] = (if w = [] then Some 0 else None)"
| "matchLazyAt w (c # cs) =
     (if prefix w (c # cs)
      then Some (length w + length (takeWhile (\<lambda>x. x \<noteq> CHR ''|'') (drop (length w) (c # cs))))
      else if isLineTerminator c then None
      else map_option Suc (matchLazyAt w cs))"

fun searchLazy :: "string \<Rightarrow> string \<Rightarrow> string option" where
  "searchLazy w [] = (if w = [] then Some [] else None)"
| "searchLazy w (c # cs) =
     (case matchLazyAt w (c # cs) of
        Some n \<Rightarrow> Some (take n (c # cs))
      | None \<Rightarrow> searchLazy w cs)"

definition matchUniversity :: "string \<Rightarrow> string option" where
  "matchUniversity pageTitle = searchLazy ''University'' pageTitle"

definition stripWww :: "string \<Rightarrow> string" where
  "stripWww d = (if prefix ''www.'' d then drop 4 d else d)"

text \<open>
  \<open>new URL(url).hostname\<close> is a call of the platform, not code of the repository, and the
  URL enters \<open>getUniversityName\<close> through this call only. Its outcome for the URL is
  therefore an argument of the embedding: \<open>Inl TypeError\<close> when the constructor throws,
  as it does on a string that is not an absolute URL, and \<open>Inr hostname\<close> with the host
  name that the platform gives otherwise. Nothing is assumed about how the platform
  parses.
\<close>

definition getUniversityName :: "error + string \<Rightarrow> string \<Rightarrow> error + string" where
  "getUniversityName hostnameOfUrl pageTitle =
     (case hostnameOfUrl of
        Inl e \<Rightarrow> Inl e
      | Inr hostname \<Rightarrow>
          (let domain = toLowerCase hostname in
           if js_includes domain ''kansas'' then Inr ''University of Kansas''
           else if js_includes domain ''illinois'' then Inr ''University of Illinois''
           else if js_includes domain ''utah'' then Inr ''University of Utah''
           else if js_includes domain ''unf'' then Inr ''University of North Florida''
           else
             (case (if js_includes pageTitle ''University'' then matchUniversity pageTitle else None) of
                Some m \<Rightarrow> Inr (js_trim m)
              | None \<Rightarrow> Inr (removeFirst ''.edu'' (stripWww domain)))))"

definition musicKeywords :: "string list" where
  "musicKeywords = [''School of Music'', ''College of Music'', ''Department of Music'',
     ''Music Department'', ''School of Fine Arts'', ''College of Fine Arts'']"

definition getDepartmentName :: "string \<Rightarrow> string" where
  "getDepartmentName pageContent =
     (case List.find (\<lambda>keyword. js_includes pageContent keyword) musicKeywords of
        Some keyword \<Rightarrow> keyword
      | None \<Rightarrow> ''Music Department'')"

section \<open>Record processor\<close>

record RawCandidate =
  rawName :: string
  rawTitle :: string
  rawEmail :: string
  rawPhone :: string
  rawProfileLink :: string

record FacultyRecord =
  recName :: string
  titles :: "string list"
  recProfileLink :: string
  recEmail :: string
  emailConfidence :: real
  emailSource :: string
  recPhone :: string
  university :: string
  department :: string
  extractionMethod :: string
  sourceUrl :: string
  scrapedAt :: string

text \<open>
  The fields of the extractor object that \<open>processFacultyData\<close> reads, with the URL of its
  page. The clock is a parameter: \<open>clock i\<close> is what \<open>new Date().toISOString()\<close> gives while
  the candidate at index \<open>i\<close> is mapped.
\<close>

record Extractor =
  thisUniversityName :: string
  thisDepartmentName :: string
  thisProfileLinks :: "ProfileLinkEntry list"
  thisPageUrl :: string

definition processPerson :: "Extractor \<Rightarrow> string \<Rightarrow> string \<Rightarrow> RawCandidate \<Rightarrow> FacultyRecord" where
  "processPerson this meth now person =
     (let cleanedName = cleanName (rawName person);
          cleanedEmail = cleanEmail (rawEmail person);
          profileLink =
            (if rawProfileLink person = [] \<and> cleanedName \<noteq> []
             then findProfileLink cleanedName (thisProfileLinks this)
             else rawProfileLink person);
          confidence = calculateEmailConfidence cleanedName cleanedEmail
      in
        \<lparr> recName = cleanedName,
          titles = (if rawTitle person \<noteq> [] then [cleanTitle (rawTitle person)] else []),
          recProfileLink = profileLink,
          recEmail = cleanedEmail,
          emailConfidence = confidence,
          emailSource = (if confidence > 0.5 then ''name-matched'' else ''generic''),
          recPhone = cleanPhone (rawPhone person),
          university = thisUniversityName this,
          department = thisDepartmentName this,
          extractionMethod = meth,
          sourceUrl = thisPageUrl this,
          scrapedAt = now \<rparr>)"

definition processFacultyData ::
    "Extractor \<Rightarrow> (nat \<Rightarrow> string) \<Rightarrow> RawCandidate list \<Rightarrow> string \<Rightarrow> FacultyRecord list" where
  "processFacultyData this clock rawFaculty meth =
     filter (\<lambda>person. recName person \<noteq> [] \<and> length (recName person) > 2)
       (map (\<lambda>i. processPerson this meth (clock i) (rawFaculty ! i)) [0 ..< length rawFaculty])"

text \<open>
  \<open>extractKansasStyle\<close>: \<open>rows\<close> is what the callback of \<open>$$eval('.views-row', ...)\<close> maps the
  rows of the page to, before its filter; the queries inside a row belong to the browser.
\<close>

definition extractKansasStyle ::
    "Extractor \<Rightarrow> (nat \<Rightarrow> string) \<Rightarrow> RawCandidate list \<Rightarrow> FacultyRecord list" where
  "extractKansasStyle this clock rows =
     processFacultyData this clock (filter (\<lambda>person. rawName person \<noteq> []) rows) ''kansas''"

section \<open>Dialect detector and dispatch\<close>

text \<open>
  A page is seen through \<open>page.$(selector)\<close>: \<open>page sel\<close> holds when the query with the
  selector \<open>sel\<close> finds an element. What is dispatched to is one of the four extractor
  methods, or, for \<open>methodMap[extractionMethod]\<close> (the input \<open>extractionMethod\<close> is
  \<open>methodInput\<close> here, apart from the field of the records), a member that the object literal
  inherits from \<open>Object.prototype\<close>: property lookup follows the prototype chain, and each
  of these members is an object, hence truthy.
\<close>

type_synonym Page = "string \<Rightarrow> bool"

datatype Dispatch =
    ExtractKansasStyle
  | ExtractIllinoisStyle
  | ExtractUtahStyle
  | ExtractTabularStyle
  | ObjectPrototypeMember string

definition detectAndExtract :: "Page \<Rightarrow> Dispatch" where
  \<open>detectAndExtract page =
     (if page ''.views-row'' then ExtractKansasStyle
      else if page ''div[class*="person"], .person-card, .faculty-card'' then ExtractIllinoisStyle
      else if page ''a[href*=".php"], table tr'' then ExtractUtahStyle
      else ExtractTabularStyle)\<close>

definition methodMap :: "(string \<times> Dispatch) list" where
  "methodMap = [(''kansas'', ExtractKansasStyle), (''illinois'', ExtractIllinoisStyle),
     (''utah'', ExtractUtahStyle), (''tabular'', ExtractTabularStyle)]"

definition objectPrototypeKeys :: "string list" where
  "objectPrototypeKeys = [''constructor'', ''hasOwnProperty'', ''isPrototypeOf'',
     ''propertyIsEnumerable'', ''toLocaleString'', ''toString'', ''valueOf'', ''__proto__'',
     ''__defineGetter__'', ''__defineSetter__'', ''__lookupGetter__'', ''__lookupSetter__'']"

definition requestHandler :: "string \<Rightarrow> Page \<Rightarrow> Dispatch" where
  "requestHandler methodInput page =
     (if methodInput = ''auto'' then detectAndExtract page
      else
        (case map_of methodMap methodInput of
           Some extract \<Rightarrow> extract
         | None \<Rightarrow>
             if methodInput \<in> set objectPrototypeKeys
             then ObjectPrototypeMember methodInput
             else detectAndExtract page))"

section \<open>The scenario of the specification\<close>

text \<open>
  One Kansas row and the inventory of profile links of its page; the extractor object and
  the clock are fixed to have a closed input.
\<close>

definition scenarioRow :: RawCandidate where
  "scenarioRow = \<lparr> rawName = ''Dr. John Doe'', rawTitle = ''Associate Professor'',
     rawEmail = ''jdoe@school.edu'', rawPhone = [], rawProfileLink = [] \<rparr>"

definition scenarioLinks :: "ProfileLinkEntry list" where
  "scenarioLinks = [\<lparr> href = ''/people/john-doe'', linkText = ''John Doe'', linkTitle = [] \<rparr>]"

definition scenarioExtractor :: Extractor where
  "scenarioExtractor = \<lparr> thisUniversityName = ''University of Kansas'',
     thisDepartmentName = ''School of Music'', thisProfileLinks = scenarioLinks,
     thisPageUrl = ''https://music.ku.edu/people'' \<rparr>"

definition scenarioClock :: "nat \<Rightarrow> string" where
  "scenarioClock i = ''2024-01-01T00:00:00.000Z''"

section \<open>Notions of the specification\<close>

text \<open>
  The specification's "split on whitespace": every white-space code unit separates. The
  source splits at the space U+0020 only.
\<close>

definition whitespaceTokens :: "string \<Rightarrow> string list" where
  "whitespaceTokens s = splitOn isSpace s"

text \<open>
  What \<open>new URL(url).hostname\<close> gives for the URLs of the examples: the string
  \<open>not a url\<close> has no scheme, so the constructor throws; the host names of
  \<open>https://www.sydney.edu.au/\<close>, \<open>https://music.kansas.edu/people\<close> and
  \<open>https://www.example.edu/music\<close> are as they are written in the URL.
\<close>

definition hostnameOfNotAUrl :: "error + string" where
  "hostnameOfNotAUrl = Inl TypeError"

definition hostnameOfSydney :: "error + string" where
  "hostnameOfSydney = Inr ''www.sydney.edu.au''"

definition hostnameOfKansas :: "error + string" where
  "hostnameOfKansas = Inr ''music.kansas.edu''"

definition hostnameOfExample :: "error + string" where
  "hostnameOfExample = Inr ''www.example.edu''"

text \<open>Profile links for the examples of the resolver.\<close>

definition janeLink :: ProfileLinkEntry where
  "janeLink = \<lparr> href = ''/people/jsmith'', linkText = ''Jane Smith'', linkTitle = [] \<rparr>"

definition slugLink :: ProfileLinkEntry where
  "slugLink = \<lparr> href = ''/people/john-doe'', linkText = ''View profile'', linkTitle = [] \<rparr>"

text \<open>The specification's "trailing \<open>.edu\<close> stripped": only at the end of the host name.\<close>

definition stripTrailingEdu :: "string \<Rightarrow> string" where
  "stripTrailingEdu d = (if suffix ''.edu'' d then take (length d - 4) d else d)"

section \<open>Facts about code units and strings\<close>

lemma length_cases: "length upperChars = length lowerChars"
  by (simp add: upperChars_def lowerChars_def)

text \<open>A code unit is left alone, or it is a capital and becomes a small letter.\<close>

lemma toLowerChar_cases:
  "toLowerChar c = c \<and> c \<notin> set upperChars \<or> c \<in> set upperChars \<and> toLowerChar c \<in> set lowerChars"
proof (cases "map_of (zip upperChars lowerChars) c")
  case None
  then have "c \<notin> fst ` set (zip upperChars lowerChars)"
    by (simp add: map_of_eq_None_iff)
  moreover have "map fst (zip upperChars lowerChars) = upperChars"
    using length_cases by (rule map_fst_zip)
  ultimately have "c \<notin> set upperChars"
    by (metis set_map)
  then show ?thesis
    using None by (simp add: toLowerChar_def)
next
  case (Some l)
  then have "(c, l) \<in> set (zip upperChars lowerChars)"
    by (rule map_of_SomeD)
  then have "c \<in> set upperChars" "l \<in> set lowerChars"
    by (auto dest: set_zip_leftD set_zip_rightD)
  then show ?thesis
    using Some by (simp add: toLowerChar_def)
qed

lemma lower_not_upper: "l \<in> set lowerChars \<Longrightarrow> l \<notin> set upperChars"
  by (auto simp: upperChars_def lowerChars_def)

lemma letters_not_space: "c \<in> set upperChars \<or> c \<in> set lowerChars \<Longrightarrow> \<not> isSpace c"
  by (auto simp: upperChars_def lowerChars_def isSpace_def)

lemma toLowerChar_idem: "toLowerChar (toLowerChar c) = toLowerChar c"
  using toLowerChar_cases [of c] toLowerChar_cases [of "toLowerChar c"] lower_not_upper
  by auto

lemma isSpace_toLowerChar: "isSpace (toLowerChar c) = isSpace c"
  using toLowerChar_cases [of c] letters_not_space by metis

lemma toLowerChar_space [simp]: "toLowerChar c = CHR '' '' \<longleftrightarrow> c = CHR '' ''"
proof -
  have "isSpace CHR '' ''"
    by (simp add: isSpace_def)
  then show ?thesis
    using toLowerChar_cases [of c] letters_not_space by metis
qed


lemma toLowerChar_stop: "toLowerChar CHR ''.'' = CHR ''.''"
  by code_simp


lemma length_toLowerCase: "length (toLowerCase s) = length s"
  by (simp add: toLowerCase_def)

lemma toLowerCase_idem: "toLowerCase (toLowerCase s) = toLowerCase s"
  by (simp add: toLowerCase_def toLowerChar_idem)

lemma js_includes_sublist: "js_includes s t \<longleftrightarrow> sublist t s"
  by (induction s) (auto simp: sublist_Cons_right)

lemma splitOn_not_Nil [simp]: "splitOn P s \<noteq> []"
  by (induction s) (auto split: list.splits)

lemma splitOn_cong: "(\<And>c. c \<in> set s \<Longrightarrow> P c = Q c) \<Longrightarrow> splitOn P s = splitOn Q s"
  by (induction s) (auto split: list.splits)

lemma splitOn_map: "(\<And>c. P (f c) = P c) \<Longrightarrow> splitOn P (map f s) = map (map f) (splitOn P s)"
  by (induction s) (auto split: list.splits)

lemma splitOn_first: "splitOn P s ! 0 = takeWhile (\<lambda>c. \<not> P c) s"
  by (induction s) (auto split: list.splits simp: nth_Cons')

lemma js_split_space_lower:
  "js_split CHR '' '' (toLowerCase s) = map toLowerCase (js_split CHR '' '' s)"
proof -
  have "splitOn (\<lambda>c. c = CHR '' '') (map toLowerChar s) =
        map (map toLowerChar) (splitOn (\<lambda>c. c = CHR '' '') s)"
    by (rule splitOn_map) simp
  then show ?thesis
    by (simp add: js_split_def toLowerCase_def[abs_def])
qed

lemma length_usable_lower:
  "length (filter (\<lambda>part. 1 < length part) (js_split CHR '' '' (toLowerCase s))) =
   length (filter (\<lambda>part. 1 < length part) (js_split CHR '' '' s))"
  by (simp add: js_split_space_lower filter_map comp_def length_toLowerCase)

lemma emailLocal_unfold: "js_split CHR ''@'' email ! 0 = takeWhile (\<lambda>c. c \<noteq> CHR ''@'') email"
  by (simp add: js_split_def splitOn_first)

lemma whitespaceTokens_lower:
  "whitespaceTokens (toLowerCase s) = map toLowerCase (whitespaceTokens s)"
proof -
  have "splitOn isSpace (map toLowerChar s) = map (map toLowerChar) (splitOn isSpace s)"
    by (rule splitOn_map) (rule isSpace_toLowerChar)
  then show ?thesis
    by (simp add: whitespaceTokens_def toLowerCase_def [abs_def])
qed

lemma usable_lower:
  "filter (\<lambda>t. 1 < length t) (whitespaceTokens (toLowerCase s)) =
   map toLowerCase (filter (\<lambda>t. 1 < length t) (whitespaceTokens s))"
  by (simp add: whitespaceTokens_lower filter_map comp_def length_toLowerCase)

lemma drop_append_le: "n \<le> length xs \<Longrightarrow> drop n (xs @ ys) = drop n xs @ ys"
  by simp

lemma append_split_last: "p \<noteq> [] \<Longrightarrow> p @ b = butlast p @ last p # b"
  by (induction p) auto

lemma not_sublist_butlast: "w \<noteq> [] \<Longrightarrow> \<not> sublist w (butlast w)"
proof
  assume a: "w \<noteq> []" "sublist w (butlast w)"
  have "length w \<le> length (butlast w)"
    using sublist_length_le [OF a(2)] .
  then have "length w \<le> length w - 1"
    by (simp only: length_butlast)
  moreover have "length w \<noteq> 0"
    using a(1) by simp
  ultimately show False
    by linarith
qed




lemma drop_takeWhile: "drop (length (takeWhile P xs)) xs = dropWhile P xs"
  by (induction xs) auto

lemma dropWhile_head: "dropWhile P xs = [] \<or> \<not> P (hd (dropWhile P xs))"
  using hd_dropWhile [of P xs] by blast

lemma find_first:
  "xs = pre @ e # post \<Longrightarrow> (\<forall>x \<in> set pre. \<not> P x) \<Longrightarrow> P e \<Longrightarrow> List.find P xs = Some e"
  by (induction pre arbitrary: xs) auto

section \<open>Replacement of all matches\<close>

lemma replaceAll_Some:
  "m s = Some n \<Longrightarrow> 0 < n \<Longrightarrow> s \<noteq> [] \<Longrightarrow> replaceAll m r s = r @ replaceAll m r (drop n s)"
  by (cases s; cases n) simp_all

lemma replaceAll_None: "m (c # cs) = None \<Longrightarrow> replaceAll m r (c # cs) = c # replaceAll m r cs"
  by simp

lemma replaceAll_Nil: "m [] = None \<Longrightarrow> replaceAll m r [] = []"
  by simp

text \<open>
  A matcher is local before \<open>t\<close> when, on a non-empty input followed by \<open>t\<close>, it finds what
  it finds on the input alone, and its matches are not empty and lie inside the input.
  Then the scan of \<open>s @ t\<close> is the scan of \<open>s\<close> followed by the scan of \<open>t\<close>.
\<close>

lemma replaceAll_append:
  assumes loc: "\<And>u. u \<noteq> [] \<Longrightarrow> m (u @ t) = m u"
    and inside: "\<And>u n. m u = Some n \<Longrightarrow> 0 < n \<and> n \<le> length u"
  shows "replaceAll m r (s @ t) = replaceAll m r s @ replaceAll m r t"
proof (induction s rule: length_induct)
  case (1 s)
  show ?case
  proof (cases s)
    case Nil
    have "m [] = None"
      using inside [of "[]"] by (cases "m []") auto
    then show ?thesis
      using Nil by simp
  next
    case (Cons c cs)
    have eq: "m ((c # cs) @ t) = m (c # cs)"
      by (rule loc) simp
    show ?thesis
    proof (cases "m (c # cs)")
      case None
      have "replaceAll m r (cs @ t) = replaceAll m r cs @ replaceAll m r t"
        using 1 Cons by simp
      then show ?thesis
        using None eq Cons by simp
    next
      case (Some n)
      then have n: "0 < n" "n \<le> length (c # cs)"
        using inside by blast+
      have "replaceAll m r ((c # cs) @ t) = r @ replaceAll m r (drop n ((c # cs) @ t))"
        using replaceAll_Some [where m = m and s = "(c # cs) @ t" and n = n and r = r] eq Some n(1)
        by simp
      also have "drop n ((c # cs) @ t) = drop n (c # cs) @ t"
        using n(2) by (rule drop_append_le)
      also have "replaceAll m r (drop n (c # cs) @ t) =
          replaceAll m r (drop n (c # cs)) @ replaceAll m r t"
        using 1 Cons n by simp
      finally show ?thesis
        using replaceAll_Some [where m = m and s = "c # cs" and n = n and r = r] Some n(1) Cons
        by simp
    qed
  qed
qed

section \<open>Alternations\<close>

lemma ciPrefix_length: "ciPrefix p s \<Longrightarrow> length p \<le> length s"
  using prefix_length_le by (fastforce simp: ciPrefix_def toLowerCase_def)

lemma matchAlt_Some:
  "matchAlt alts s = Some n \<Longrightarrow> \<exists>p \<in> set alts. ciPrefix p s \<and> n = length p"
  by (auto simp: matchAlt_def find_Some_iff)

lemma matchAlt_cong:
  "(\<And>p. p \<in> set alts \<Longrightarrow> ciPrefix p s = ciPrefix p s') \<Longrightarrow> matchAlt alts s = matchAlt alts s'"
  unfolding matchAlt_def by (rule arg_cong [where f = "map_option length"], rule find_cong) auto


section \<open>Honorifics\<close>

lemma honorifics_cases:
  "p \<in> set honorifics \<Longrightarrow>
   p = ''dr.'' \<or> p = ''prof.'' \<or> p = ''professor'' \<or> p = ''mr.'' \<or> p = ''ms.'' \<or> p = ''mrs.''"
  by (simp add: honorifics_def)

lemma honorific_head: "p \<in> set honorifics \<Longrightarrow> p \<noteq> [] \<and> hd p \<in> set ''dpm''"
  by (auto dest: honorifics_cases)

lemma honorific_tail: "p \<in> set honorifics \<Longrightarrow> set (tl p) \<inter> set ''dpm'' = {}"
  by (auto dest!: honorifics_cases)


lemma matchHonorific_inside: "matchHonorific u = Some n \<Longrightarrow> 0 < n \<and> n \<le> length u"
  unfolding matchHonorific_def
  by (auto dest!: matchAlt_Some dest: ciPrefix_length honorific_head)

lemma find_honorific:
  "List.find (\<lambda>q. prefix q (''dr.'' @ B)) honorifics = Some ''dr.''"
  "List.find (\<lambda>q. prefix q (''prof.'' @ B)) honorifics = Some ''prof.''"
  "List.find (\<lambda>q. prefix q (''professor'' @ B)) honorifics = Some ''professor''"
  "List.find (\<lambda>q. prefix q (''mr.'' @ B)) honorifics = Some ''mr.''"
  "List.find (\<lambda>q. prefix q (''ms.'' @ B)) honorifics = Some ''ms.''"
  "List.find (\<lambda>q. prefix q (''mrs.'' @ B)) honorifics = Some ''mrs.''"
  by (simp_all add: honorifics_def)

lemma find_honorific_self:
  "p \<in> set honorifics \<Longrightarrow> List.find (\<lambda>q. prefix q (p @ B)) honorifics = Some p"
  by (drule honorifics_cases, elim disjE) (simp_all only: find_honorific)

lemma matchHonorific_at:
  assumes "toLowerCase h \<in> set honorifics"
  shows "matchHonorific (h @ b) = Some (length h)"
proof -
  have "matchHonorific (h @ b) =
      map_option length (List.find (\<lambda>q. prefix q (toLowerCase h @ toLowerCase b)) honorifics)"
    by (simp add: matchHonorific_def matchAlt_def ciPrefix_def toLowerCase_def)
  also have "\<dots> = Some (length (toLowerCase h))"
    by (simp only: find_honorific_self [OF assms] option.map)
  finally show ?thesis
    by (simp add: toLowerCase_def)
qed

lemma honorific_local:
  assumes h: "toLowerCase h \<in> set honorifics" and a: "a \<noteq> []" and p: "p \<in> set honorifics"
  shows "ciPrefix p (a @ h @ b) = ciPrefix p a"
proof
  assume "ciPrefix p (a @ h @ b)"
  then have "prefix p (toLowerCase a @ toLowerCase h @ toLowerCase b)"
    by (simp add: ciPrefix_def toLowerCase_def)
  then have "prefix p (toLowerCase a) \<or>
      (\<exists>us. p = toLowerCase a @ us \<and> prefix us (toLowerCase h @ toLowerCase b))"
    by (simp only: prefix_append)
  then consider "prefix p (toLowerCase a)"
    | us where "p = toLowerCase a @ us" "prefix us (toLowerCase h @ toLowerCase b)" "us \<noteq> []"
    by (cases "prefix p (toLowerCase a)") auto
  then show "ciPrefix p a"
  proof cases
    case 1
    then show ?thesis by (simp add: ciPrefix_def)
  next
    case 2
    have "toLowerCase h \<noteq> []"
      using honorific_head [OF h] by simp
    then have "hd us = hd (toLowerCase h)"
      using 2(2,3) by (cases us; cases "toLowerCase h") auto
    moreover have "hd us \<in> set (tl p)"
      using 2(1,3) a by (cases a; cases us) (auto simp: toLowerCase_def)
    ultimately show ?thesis
      using honorific_head [OF h] honorific_tail [OF p] by auto
  qed
next
  assume "ciPrefix p a"
  then show "ciPrefix p (a @ h @ b)"
    by (simp add: ciPrefix_def toLowerCase_def)
qed

lemma removeHonorifics_occurrence:
  assumes "toLowerCase h \<in> set honorifics"
  shows "replaceAll matchHonorific [] (a @ h @ b) =
     replaceAll matchHonorific [] a @ replaceAll matchHonorific [] b"
proof -
  have "replaceAll matchHonorific [] (a @ (h @ b)) =
      replaceAll matchHonorific [] a @ replaceAll matchHonorific [] (h @ b)"
  proof (rule replaceAll_append)
    fix u :: string
    assume "u \<noteq> []"
    then show "matchHonorific (u @ h @ b) = matchHonorific u"
      unfolding matchHonorific_def
      by (intro matchAlt_cong honorific_local assms)
  next
    fix u n
    assume "matchHonorific u = Some n"
    then show "0 < n \<and> n \<le> length u"
      by (rule matchHonorific_inside)
  qed
  moreover have "h @ b \<noteq> []" "0 < length h"
    using honorific_head [OF assms] by (auto simp: toLowerCase_def)
  then have "replaceAll matchHonorific [] (h @ b) = replaceAll matchHonorific [] b"
    using replaceAll_Some [where m = matchHonorific and s = "h @ b" and n = "length h" and r = "[]"]
      matchHonorific_at [OF assms, of b] by simp
  ultimately show ?thesis
    by simp
qed


section \<open>Generational suffixes\<close>












section \<open>Collapsing and trimming white space\<close>

lemma matchSpaces_Cons:
  "matchSpaces (c # cs) = (if isSpace c then Some (Suc (length (takeWhile isSpace cs))) else None)"
  by (simp add: matchSpaces_def Let_def)

lemma collapseSpaces_Nil: "collapseSpaces [] = []"
  by (simp add: collapseSpaces_def matchSpaces_def)

lemma collapseSpaces_Cons:
  "collapseSpaces (c # cs) =
     (if isSpace c then CHR '' '' # collapseSpaces (dropWhile isSpace cs)
      else c # collapseSpaces cs)"
  by (simp add: collapseSpaces_def matchSpaces_Cons drop_takeWhile)

lemma collapseSpaces_head:
  "s = [] \<or> \<not> isSpace (hd s) \<Longrightarrow> collapseSpaces s = [] \<or> \<not> isSpace (hd (collapseSpaces s))"
  by (cases s) (auto simp: collapseSpaces_Nil collapseSpaces_Cons)

lemma collapseSpaces_normal:
  "(\<forall>c \<in> set (collapseSpaces s). isSpace c \<longrightarrow> c = CHR '' '') \<and>
   \<not> sublist ''  '' (collapseSpaces s)"
proof (induction s rule: length_induct)
  case (1 s)
  show ?case
  proof (cases s)
    case Nil
    then show ?thesis by (simp add: collapseSpaces_Nil)
  next
    case (Cons c cs)
    show ?thesis
    proof (cases "isSpace c")
      case True
      let ?d = "dropWhile isSpace cs"
      have "length ?d < length s"
        using Cons length_dropWhile_le [of isSpace cs] by simp
      then have ih: "(\<forall>c \<in> set (collapseSpaces ?d). isSpace c \<longrightarrow> c = CHR '' '')"
          "\<not> sublist ''  '' (collapseSpaces ?d)"
        using 1 by blast+
      have "collapseSpaces ?d = [] \<or> \<not> isSpace (hd (collapseSpaces ?d))"
        by (rule collapseSpaces_head) (rule dropWhile_head)
      then have "\<not> prefix '' '' (collapseSpaces ?d)"
        by (cases "collapseSpaces ?d") (auto simp: isSpace_def)
      then show ?thesis
        using ih Cons True by (simp add: collapseSpaces_Cons sublist_Cons_right)
    next
      case False
      have "length cs < length s"
        using Cons by simp
      then have "(\<forall>c \<in> set (collapseSpaces cs). isSpace c \<longrightarrow> c = CHR '' '')"
          "\<not> sublist ''  '' (collapseSpaces cs)"
        using 1 by blast+
      moreover have "c \<noteq> CHR '' ''"
        using False by (auto simp: isSpace_def)
      ultimately show ?thesis
        using Cons False by (simp add: collapseSpaces_Cons sublist_Cons_right)
    qed
  qed
qed

lemma js_trim_sublist: "sublist (js_trim s) s"
proof -
  have "suffix (dropWhile isSpace (rev (dropWhile isSpace s))) (rev (dropWhile isSpace s))"
    by (rule suffix_dropWhile)
  then have "prefix (js_trim s) (dropWhile isSpace s)"
    by (simp add: suffix_to_prefix js_trim_def)
  then have "sublist (js_trim s) (dropWhile isSpace s)"
    by (rule prefix_imp_sublist)
  moreover have "sublist (dropWhile isSpace s) s"
    by (rule suffix_imp_sublist) (rule suffix_dropWhile)
  ultimately show ?thesis
    by (rule sublist_order.order_trans)
qed

lemma js_trim_ends:
  "js_trim s = [] \<or> (\<not> isSpace (hd (js_trim s)) \<and> \<not> isSpace (last (js_trim s)))"
proof (cases "js_trim s = []")
  case True
  then show ?thesis by simp
next
  case False
  let ?d = "dropWhile isSpace s"
  let ?e = "dropWhile isSpace (rev ?d)"
  have t: "js_trim s = rev ?e"
    by (simp add: js_trim_def)
  then have e: "?e \<noteq> []"
    using False by simp
  then have "\<not> isSpace (hd ?e)"
    by (rule hd_dropWhile)
  then have l: "\<not> isSpace (last (js_trim s))"
    using e t by (simp add: last_rev)
  have "prefix (js_trim s) ?d"
    using suffix_dropWhile [of isSpace "rev ?d"] by (simp add: suffix_to_prefix js_trim_def)
  then obtain z where z: "?d = js_trim s @ z"
    by (auto simp: prefix_def)
  then have "hd ?d = hd (js_trim s)"
    using False by (metis hd_append2)
  moreover have "?d \<noteq> []"
    using z False by auto
  ultimately have "\<not> isSpace (hd (js_trim s))"
    using hd_dropWhile [of isSpace s] by simp
  then show ?thesis
    using l by simp
qed

lemma js_trim_Nil: "js_trim [] = []"
  by (simp add: js_trim_def)

section \<open>Cleaned names\<close>

lemma cleanName_unfold:
  "cleanName s = js_trim (collapseSpaces (replaceAll matchSuffix [] (replaceAll matchHonorific [] s)))"
proof (cases "s = []")
  case True
  have "replaceAll matchHonorific [] [] = []" "replaceAll matchSuffix [] [] = []"
    by (simp_all add: matchHonorific_def matchAlt_def ciPrefix_def toLowerCase_def honorifics_def
        matchSuffix_def)
  then show ?thesis
    using True by (simp add: cleanName_def collapseSpaces_Nil js_trim_Nil)
next
  case False
  then show ?thesis by (simp add: cleanName_def)
qed

lemma cleanName_normal:
  "(\<forall>c \<in> set (cleanName s). isSpace c \<longrightarrow> c = CHR '' '') \<and>
   \<not> sublist ''  '' (cleanName s) \<and>
   (cleanName s = [] \<or> (\<not> isSpace (hd (cleanName s)) \<and> \<not> isSpace (last (cleanName s))))"
proof -
  let ?m = "collapseSpaces (replaceAll matchSuffix [] (replaceAll matchHonorific [] s))"
  have c: "cleanName s = js_trim ?m"
    by (rule cleanName_unfold)
  have sub: "sublist (cleanName s) ?m"
    unfolding c by (rule js_trim_sublist)
  have n: "(\<forall>c \<in> set ?m. isSpace c \<longrightarrow> c = CHR '' '')" "\<not> sublist ''  '' ?m"
    using collapseSpaces_normal by blast+
  have "\<forall>c \<in> set (cleanName s). isSpace c \<longrightarrow> c = CHR '' ''"
    using n(1) set_mono_sublist [OF sub] by blast
  moreover have "\<not> sublist ''  '' (cleanName s)"
    using n(2) sub sublist_order.order_trans by blast
  moreover have "cleanName s = [] \<or> (\<not> isSpace (hd (cleanName s)) \<and> \<not> isSpace (last (cleanName s)))"
    unfolding c by (rule js_trim_ends)
  ultimately show ?thesis
    by blast
qed



lemma cleaned_tokens:
  "whitespaceTokens (toLowerCase (cleanName raw)) = js_split CHR '' '' (toLowerCase (cleanName raw))"
  unfolding whitespaceTokens_def js_split_def
proof (rule splitOn_cong)
  fix c
  assume "c \<in> set (toLowerCase (cleanName raw))"
  then obtain c0 where c0: "c0 \<in> set (cleanName raw)" "c = toLowerChar c0"
    by (auto simp: toLowerCase_def)
  have "isSpace c0 \<longrightarrow> c0 = CHR '' ''"
    using cleanName_normal [of raw] c0(1) by blast
  moreover have "isSpace CHR '' ''"
    by (simp add: isSpace_def)
  ultimately have "isSpace c0 = (c0 = CHR '' '')"
    by blast
  then show "isSpace c = (c = CHR '' '')"
    using c0(2) by (simp add: isSpace_toLowerChar)
qed

lemma cleaned_tokens_raw:
  "whitespaceTokens (cleanName raw) = js_split CHR '' '' (cleanName raw)"
  unfolding whitespaceTokens_def js_split_def
proof (rule splitOn_cong)
  fix c
  assume "c \<in> set (cleanName raw)"
  then have "isSpace c \<longrightarrow> c = CHR '' ''"
    using cleanName_normal [of raw] by blast
  moreover have "isSpace CHR '' ''"
    by (simp add: isSpace_def)
  ultimately show "isSpace c = (c = CHR '' '')"
    by blast
qed

lemma cleanName_John_Doe: "cleanName ''Dr. John Doe'' = ''John Doe''"
  by code_simp


lemma cleanName_Jo: "cleanName ''Jo'' = ''Jo''"
  by code_simp

lemma cleanName_Jon: "cleanName ''Jon'' = ''Jon''"
  by code_simp

lemma cleanName_Madonna: "cleanName ''Dr. Madonna'' = ''Madonna''"
  by code_simp

lemma cleanName_Professorship: "cleanName ''Professorship'' = ''ship''"
  by code_simp

lemma cleanName_middle: "cleanName ''John Dr. Doe'' = ''John Doe''"
  by code_simp

lemma cleanName_juxtaposed: "cleanName ''DDr.r. Who'' = ''Dr. Who''"
  by code_simp

section \<open>The scorer\<close>

lemma confidence_cascade:
  assumes "name \<noteq> []" "email \<noteq> []" "5 \<le> length email"
    and parts: "parts = filter (\<lambda>part. 1 < length part) (js_split CHR '' '' (toLowerCase name))"
    and two: "2 \<le> length parts"
    and loc: "emailLocal = toLowerCase (takeWhile (\<lambda>c. c \<noteq> CHR ''@'') email)"
  shows "calculateEmailConfidence name email =
    (if emailLocal = hd parts @ ''.'' @ last parts then 0.95
     else if emailLocal = hd parts @ ''.'' @ [hd (last parts)] then 0.85
     else if emailLocal = [hd (hd parts)] @ ''.'' @ last parts then 0.85
     else if sublist (hd parts) emailLocal \<and> sublist (last parts) emailLocal then 0.75
     else if sublist (hd parts) emailLocal then 0.6
     else if sublist (last parts) emailLocal then 0.5
     else 0.1)"
proof -
  have ne: "parts \<noteq> []"
    using two by auto
  have f: "parts ! 0 = hd parts"
    using ne by (simp add: hd_conv_nth)
  have l: "parts ! (length parts - 1) = last parts"
    using ne by (simp add: last_conv_nth)
  have "hd parts \<in> set parts" "last parts \<in> set parts"
    using ne by simp_all
  then have "1 < length (hd parts)" "1 < length (last parts)"
    unfolding parts by auto
  then have "hd parts \<noteq> []" "last parts \<noteq> []"
    by auto
  then have f0: "hd parts ! 0 = hd (hd parts)" and l0: "last parts ! 0 = hd (last parts)"
    by (simp_all add: hd_conv_nth)
  have "calculateEmailConfidence name email =
    (if emailLocal = parts ! 0 @ ''.'' @ parts ! (length parts - 1) then 0.95
     else if emailLocal = parts ! 0 @ ''.'' @ [parts ! (length parts - 1) ! 0] then 0.85
     else if emailLocal = [parts ! 0 ! 0] @ ''.'' @ parts ! (length parts - 1) then 0.85
     else if js_includes emailLocal (parts ! 0) \<and> js_includes emailLocal (parts ! (length parts - 1))
       then 0.75
     else if js_includes emailLocal (parts ! 0) then 0.6
     else if js_includes emailLocal (parts ! (length parts - 1)) then 0.5
     else 0.1)"
    unfolding calculateEmailConfidence_def Let_def emailLocal_unfold parts [symmetric] loc [symmetric]
    using assms(1-3) two by simp
  then show ?thesis
    unfolding f l f0 l0 js_includes_sublist .
qed

text \<open>
  A local part in lower case that is first.last of the tokens as they are written is
  first.last of the tokens in lower case.
\<close>

lemma raw_tokens_folded:
  assumes raw: "rawTokens = filter (\<lambda>t. 1 < length t) (whitespaceTokens name)"
    and ne: "rawTokens \<noteq> []"
    and loc: "emailLocal = toLowerCase x"
    and eq: "emailLocal = hd rawTokens @ ''.'' @ last rawTokens"
  shows "emailLocal = hd (filter (\<lambda>t. 1 < length t) (whitespaceTokens (toLowerCase name))) @ ''.'' @
     last (filter (\<lambda>t. 1 < length t) (whitespaceTokens (toLowerCase name)))"
proof -
  have "emailLocal = toLowerCase emailLocal"
    unfolding loc by (simp add: toLowerCase_idem)
  also have "\<dots> = toLowerCase (hd rawTokens) @ ''.'' @ toLowerCase (last rawTokens)"
    by (subst eq) (simp add: toLowerCase_def toLowerChar_stop)
  also have "\<dots> = hd (map toLowerCase rawTokens) @ ''.'' @ last (map toLowerCase rawTokens)"
    using ne by (simp add: hd_map last_map)
  finally show ?thesis
    unfolding usable_lower raw .
qed

lemma confidence_jdoe: "calculateEmailConfidence ''John Doe'' ''jdoe@school.edu'' = 0.5"
  by code_simp

section \<open>The record processor\<close>

lemma recName_processPerson [simp]:
  "recName (processPerson this meth now person) = cleanName (rawName person)"
  by (simp add: processPerson_def Let_def)

lemma emailSource_processPerson:
  "(emailSource (processPerson this meth now person) = ''name-matched'') =
   (0.5 < emailConfidence (processPerson this meth now person))"
  by (simp add: processPerson_def Let_def)

lemma processFacultyData_filter:
  "processFacultyData this clock raw meth =
     map (\<lambda>i. processPerson this meth (clock i) (raw ! i))
       (filter (\<lambda>i. 2 < length (cleanName (rawName (raw ! i)))) [0 ..< length raw])"
proof -
  have "(\<lambda>i. cleanName (rawName (raw ! i)) \<noteq> [] \<and> 2 < length (cleanName (rawName (raw ! i)))) =
        (\<lambda>i. 2 < length (cleanName (rawName (raw ! i))))"
    by auto
  then show ?thesis
    by (simp add: processFacultyData_def filter_map comp_def)
qed

lemma cleanEmail_jdoe: "cleanEmail ''jdoe@school.edu'' = ''jdoe@school.edu''"
  by code_simp

lemma cleanTitle_Associate: "cleanTitle ''Associate Professor'' = ''Associate Professor''"
  by code_simp

lemma cleanPhone_Nil: "cleanPhone [] = []"
  by (simp add: cleanPhone_def)

lemma findProfileLink_John_Doe:
  "findProfileLink ''John Doe'' scenarioLinks = ''/people/john-doe''"
  by code_simp

lemma scenario_output:
  "extractKansasStyle (this\<lparr>thisProfileLinks := scenarioLinks\<rparr>) clock [scenarioRow] =
     [\<lparr> recName = ''John Doe'', titles = [''Associate Professor''],
        recProfileLink = ''/people/john-doe'', recEmail = ''jdoe@school.edu'',
        emailConfidence = 0.5, emailSource = ''generic'', recPhone = [],
        university = thisUniversityName this, department = thisDepartmentName this,
        extractionMethod = ''kansas'', sourceUrl = thisPageUrl this, scrapedAt = clock 0 \<rparr>]"
  by (simp add: extractKansasStyle_def processFacultyData_def processPerson_def scenarioRow_def
      cleanName_John_Doe cleanEmail_jdoe cleanTitle_Associate cleanPhone_Nil confidence_jdoe
      findProfileLink_John_Doe)

lemma scenarioExtractor_links:
  "scenarioExtractor\<lparr>thisProfileLinks := scenarioLinks\<rparr> = scenarioExtractor"
  by (simp add: scenarioExtractor_def)

section \<open>The lazy match and the removal of the first occurrence\<close>

lemma matchLazyAt_Some:
  "w \<noteq> [] \<Longrightarrow> matchLazyAt w s = Some n \<Longrightarrow>
   \<exists>pre post b. s = pre @ w @ post @ b \<and> n = length pre + length w + length post \<and>
     CHR ''|'' \<notin> set post \<and> (b = [] \<or> hd b = CHR ''|'') \<and>
     (\<forall>c \<in> set pre. \<not> isLineTerminator c) \<and> \<not> sublist w (pre @ butlast w)"
proof (induction s arbitrary: n)
  case Nil
  then show ?case by simp
next
  case (Cons c cs)
  show ?case
  proof (cases "prefix w (c # cs)")
    case True
    then obtain rest where rest: "c # cs = w @ rest"
      by (auto simp: prefix_def)
    then have dr: "drop (length w) (c # cs) = rest"
      by simp
    let ?post = "takeWhile (\<lambda>x. x \<noteq> CHR ''|'') rest"
    let ?b = "dropWhile (\<lambda>x. x \<noteq> CHR ''|'') rest"
    have n: "n = length w + length ?post"
      using Cons.prems(2) True dr by simp
    have "c # cs = [] @ w @ ?post @ ?b"
      using rest by simp
    moreover have "CHR ''|'' \<notin> set ?post"
      by (auto dest: set_takeWhileD)
    moreover have "?b = [] \<or> hd ?b = CHR ''|''"
      using hd_dropWhile [of "\<lambda>x. x \<noteq> CHR ''|''" rest] by auto
    moreover have "\<not> sublist w ([] @ butlast w)"
      using Cons.prems(1) not_sublist_butlast by simp
    ultimately show ?thesis
      using n by (intro exI [of _ "[]"] exI [of _ ?post] exI [of _ ?b]) simp
  next
    case False
    then have nt: "\<not> isLineTerminator c" and "\<exists>n'. matchLazyAt w cs = Some n' \<and> n = Suc n'"
      using Cons.prems(2) by (auto split: if_splits)
    then obtain n' where n': "matchLazyAt w cs = Some n'" "n = Suc n'"
      by blast
    from Cons.IH [OF Cons.prems(1) n'(1)] obtain pre post b where
      d: "cs = pre @ w @ post @ b" "n' = length pre + length w + length post"
        "CHR ''|'' \<notin> set post" "b = [] \<or> hd b = CHR ''|''"
        "\<forall>c \<in> set pre. \<not> isLineTerminator c" "\<not> sublist w (pre @ butlast w)"
      by blast
    have "\<not> prefix w (c # pre @ butlast w)"
    proof
      assume "prefix w (c # pre @ butlast w)"
      then have "prefix w ((c # pre @ butlast w) @ (last w # post @ b))"
        using prefix_prefix by blast
      moreover have "(c # pre @ butlast w) @ (last w # post @ b) = c # cs"
        using d(1) append_split_last [OF Cons.prems(1), of "post @ b"] by simp
      ultimately show False
        using False by simp
    qed
    then have "\<not> sublist w ((c # pre) @ butlast w)"
      using d(6) by (simp add: sublist_Cons_right)
    then show ?thesis
      using d n'(2) nt
      by (intro exI [of _ "c # pre"] exI [of _ post] exI [of _ b]) simp
  qed
qed

lemma searchLazy_Some:
  "w \<noteq> [] \<Longrightarrow> searchLazy w t = Some m \<Longrightarrow>
   \<exists>a b. t = a @ m @ b \<and> matchLazyAt w (m @ b) = Some (length m) \<and>
     (a = [] \<or> isLineTerminator (last a))"
proof (induction t)
  case Nil
  then show ?case by simp
next
  case (Cons c cs)
  show ?case
  proof (cases "matchLazyAt w (c # cs)")
    case (Some n)
    then have m: "m = take n (c # cs)"
      using Cons.prems by simp
    from matchLazyAt_Some [OF Cons.prems(1) Some] have "n \<le> length (c # cs)"
      by (metis add_leD1 le_add1 length_append add.assoc)
    then have "length m = n"
      using m by simp
    then show ?thesis
      using Some m by (intro exI [of _ "[]"] exI [of _ "drop n (c # cs)"]) simp
  next
    case None
    then have "searchLazy w cs = Some m"
      using Cons.prems by simp
    from Cons.IH [OF Cons.prems(1) this] obtain a b where
      d: "cs = a @ m @ b" "matchLazyAt w (m @ b) = Some (length m)"
        "a = [] \<or> isLineTerminator (last a)"
      by blast
    have "isLineTerminator (last (c # a))"
    proof (cases "a = []")
      case True
      then have "matchLazyAt w cs = Some (length m)"
        using d by simp
      then show ?thesis
        using None True by (auto split: if_splits)
    next
      case False
      then show ?thesis using d(3) by simp
    qed
    then show ?thesis
      using d by (intro exI [of _ "c # a"] exI [of _ b]) simp
  qed
qed

lemma searchLazy_includes:
  "w \<noteq> [] \<Longrightarrow> js_includes t w \<Longrightarrow> \<exists>m. searchLazy w t = Some m"
proof (induction t)
  case Nil
  then show ?case by simp
next
  case (Cons c cs)
  show ?case
  proof (cases "matchLazyAt w (c # cs)")
    case (Some n)
    then show ?thesis by simp
  next
    case None
    then have "\<not> prefix w (c # cs)"
      by (auto split: if_splits)
    then have "js_includes cs w"
      using Cons.prems by simp
    then show ?thesis
      using Cons.IH Cons.prems(1) None by simp
  qed
qed

lemma searchLazy_shape:
  assumes "w \<noteq> []" "js_includes t w"
  shows "\<exists>a pre post b. t = a @ pre @ w @ post @ b \<and>
     searchLazy w t = Some (pre @ w @ post) \<and>
     (a = [] \<or> isLineTerminator (last a)) \<and>
     (\<forall>c \<in> set pre. \<not> isLineTerminator c) \<and> \<not> sublist w (pre @ butlast w) \<and>
     CHR ''|'' \<notin> set post \<and> (b = [] \<or> hd b = CHR ''|'')"
proof -
  from searchLazy_includes [OF assms] obtain m where m: "searchLazy w t = Some m"
    by blast
  from searchLazy_Some [OF assms(1) m] obtain a b0 where
    d: "t = a @ m @ b0" "matchLazyAt w (m @ b0) = Some (length m)"
      "a = [] \<or> isLineTerminator (last a)"
    by blast
  from matchLazyAt_Some [OF assms(1) d(2)] obtain pre post b where
    e: "m @ b0 = pre @ w @ post @ b" "length m = length pre + length w + length post"
      "CHR ''|'' \<notin> set post" "b = [] \<or> hd b = CHR ''|''"
      "\<forall>c \<in> set pre. \<not> isLineTerminator c" "\<not> sublist w (pre @ butlast w)"
    by blast
  have "m @ b0 = (pre @ w @ post) @ b" "length m = length (pre @ w @ post)"
    using e by simp_all
  then have "m = pre @ w @ post \<and> b0 = b"
    by (metis append_eq_append_conv)
  then show ?thesis
    using d e m by (intro exI [of _ a] exI [of _ pre] exI [of _ post] exI [of _ b]) simp
qed

lemma removeFirst_absent: "\<not> sublist p d \<Longrightarrow> removeFirst p d = d"
  by (induction d) (auto simp: sublist_Cons_right)

lemma removeFirst_first:
  "p \<noteq> [] \<Longrightarrow> \<not> sublist p (a @ butlast p) \<Longrightarrow> removeFirst p (a @ p @ b) = a @ b"
proof (induction a)
  case Nil
  then show ?case by (cases p) auto
next
  case (Cons x a)
  have np: "\<not> prefix p (x # a @ butlast p)" and ns: "\<not> sublist p (a @ butlast p)"
    using Cons.prems(2) by (simp_all add: sublist_Cons_right)
  have "\<not> prefix p (x # a @ p @ b)"
  proof
    assume pr: "prefix p (x # a @ p @ b)"
    have eq: "x # a @ p @ b = (x # a @ butlast p) @ (last p # b)"
      by (simp add: append_split_last [OF Cons.prems(1)])
    have "prefix p ((x # a @ butlast p) @ (last p # b))"
      using pr unfolding eq .
    moreover have "length p \<le> length (x # a @ butlast p)"
      by simp
    ultimately have "prefix p (x # a @ butlast p)"
      by (metis prefix_length_prefix prefixI order_refl prefix_order.order_refl append.right_neutral)
    then show False using np by simp
  qed
  then show ?case
    using Cons.IH [OF Cons.prems(1) ns] by simp
qed

lemma removeFirst_edu:
  "\<not> sublist ''.edu'' (a @ ''.ed'') \<Longrightarrow> removeFirst ''.edu'' (a @ ''.edu'' @ b) = a @ b"
proof -
  assume s: "\<not> sublist ''.edu'' (a @ ''.ed'')"
  have n: "''.edu'' \<noteq> []" by simp
  have b: "butlast ''.edu'' = ''.ed''" by simp
  show ?thesis
    by (rule removeFirst_first [OF n]) (simp only: b s not_False_eq_True)
qed

lemma matchUniversity_shape:
  "js_includes pageTitle ''University'' \<Longrightarrow>
     \<exists>a pre post b. pageTitle = a @ pre @ ''University'' @ post @ b \<and>
         matchUniversity pageTitle = Some (pre @ ''University'' @ post) \<and>
         (a = [] \<or> isLineTerminator (last a)) \<and> (\<forall>c \<in> set pre. \<not> isLineTerminator c) \<and>
         \<not> sublist ''University'' (pre @ ''Universit'') \<and> CHR ''|'' \<notin> set post \<and>
         (b = [] \<or> hd b = CHR ''|'')"
proof -
  assume i: "js_includes pageTitle ''University''"
  have n: "''University'' \<noteq> []" by simp
  have b: "butlast ''University'' = ''Universit''" by simp
  show ?thesis
    using searchLazy_shape [OF n i] unfolding matchUniversity_def b .
qed

lemma getUniversityName_Some:
  "getUniversityName (Inr hostname) pageTitle = Inr
     (if js_includes (toLowerCase hostname) ''kansas'' then ''University of Kansas''
      else if js_includes (toLowerCase hostname) ''illinois'' then ''University of Illinois''
      else if js_includes (toLowerCase hostname) ''utah'' then ''University of Utah''
      else if js_includes (toLowerCase hostname) ''unf'' then ''University of North Florida''
      else if js_includes pageTitle ''University''
        then js_trim (case matchUniversity pageTitle of Some m \<Rightarrow> m | None \<Rightarrow> [])
      else removeFirst ''.edu'' (stripWww (toLowerCase hostname)))"
proof -
  have "js_includes pageTitle ''University'' \<Longrightarrow> \<exists>m. matchUniversity pageTitle = Some m"
    unfolding matchUniversity_def by (rule searchLazy_includes) simp_all
  then show ?thesis
    unfolding getUniversityName_def Let_def by (auto split: option.splits)
qed

lemma getUniversityName_error: "getUniversityName (Inl e) pageTitle = Inl e"
  by (simp add: getUniversityName_def)

lemma getUniversityName_total:
  "(\<exists>v. getUniversityName outcome pageTitle = Inr v) \<longleftrightarrow> (\<exists>h. outcome = Inr h)"
proof (cases outcome)
  case (Inl e)
  then show ?thesis by (simp add: getUniversityName_error)
next
  case (Inr h)
  then show ?thesis using getUniversityName_Some [of h pageTitle] by simp
qed

section \<open>Values that can be undefined\<close>

lemma js_at_Some: "i < length xs \<Longrightarrow> js_at xs i = Some (xs ! i)"
  by (simp add: js_at_def)

text \<open>
  None of the three places of the scorer that could raise does: \<open>split\<close> gives at least
  one token, and behind the test for two usable parts the first and the last part exist and
  are longer than 1.
\<close>

lemma calculateEmailConfidenceChecked_eq:
  "calculateEmailConfidenceChecked name email = Inr (calculateEmailConfidence name email)"
proof (cases "name = [] \<or> email = [] \<or> length email < 5")
  case True
  then show ?thesis
    by (auto simp: calculateEmailConfidenceChecked_def calculateEmailConfidence_def)
next
  case False
  define nameParts where
    "nameParts = filter (\<lambda>part. length part > 1) (js_split CHR '' '' (toLowerCase name))"
  show ?thesis
  proof (cases "length nameParts < 2")
    case True
    then show ?thesis
      using False
      by (simp add: calculateEmailConfidenceChecked_def calculateEmailConfidence_def Let_def
          nameParts_def)
  next
    case two: False
    let ?f = "nameParts ! 0" and ?l = "nameParts ! (length nameParts - 1)"
    have pos: "0 < length nameParts" and lt: "length nameParts - 1 < length nameParts"
      using two by linarith+
    have f: "js_at nameParts 0 = Some ?f"
      unfolding js_at_def using pos by (simp only: if_True)
    have l: "js_at nameParts (length nameParts - 1) = Some ?l"
      unfolding js_at_def using lt by (simp only: if_True)
    have "?f \<in> set nameParts" "?l \<in> set nameParts"
      using pos lt by (simp_all only: nth_mem)
    then have "1 < length ?f" "1 < length ?l"
      unfolding nameParts_def by auto
    then have f0: "js_at ?f 0 = Some (?f ! 0)" and l0: "js_at ?l 0 = Some (?l ! 0)"
      by (auto simp: js_at_def)
    have e: "js_at (js_split CHR ''@'' email) 0 = Some (js_split CHR ''@'' email ! 0)"
      by (rule js_at_Some) (simp add: js_split_def)
    show ?thesis
      unfolding calculateEmailConfidenceChecked_def calculateEmailConfidence_def Let_def
        nameParts_def [symmetric] f l e f0 l0 js_template_def option.case option.map
      using False two
      by simp
  qed
qed

lemma confidence_range:
  "calculateEmailConfidence name email \<in> {0.1, 0.3, 0.5, 0.6, 0.75, 0.85, 0.95}"
  by (simp add: calculateEmailConfidence_def Let_def)

section \<open>Results of the other operations\<close>

lemma findProfileLink_honest:
  "findProfileLink name links = [] \<or> findProfileLink name links \<in> href ` set links"
proof (cases "name = [] \<or> links = []")
  case True
  then show ?thesis by (auto simp: findProfileLink_def)
next
  case False
  let ?u = "urlMatch (js_split CHR '' '' (toLowerCase name) ! 0)
      (js_split CHR '' '' (toLowerCase name) ! (length (js_split CHR '' '' (toLowerCase name)) - 1))"
  have eq: "findProfileLink name links =
     (case List.find (textMatch name) links of
        Some e \<Rightarrow> href e
      | None \<Rightarrow> (case List.find ?u links of Some e \<Rightarrow> href e | None \<Rightarrow> []))"
    unfolding findProfileLink_def Let_def using False by simp
  show ?thesis
    unfolding eq
    by (auto split: option.splits dest!: find_Some_iff [THEN iffD1] intro!: imageI)
qed

lemma getDepartmentName_range: "getDepartmentName content \<in> set musicKeywords"
proof (cases "List.find (\<lambda>keyword. js_includes content keyword) musicKeywords")
  case None
  then show ?thesis
    by (simp add: getDepartmentName_def) (simp add: musicKeywords_def)
next
  case (Some k)
  then have "k \<in> set musicKeywords"
    by (auto simp: find_Some_iff)
  then show ?thesis
    using Some by (simp add: getDepartmentName_def)
qed

lemma cleanEmail_no_at: "\<not> sublist ''@'' email \<Longrightarrow> cleanEmail email = []"
  by (simp add: cleanEmail_def js_includes_sublist)

lemma cleanPhone_chars: "\<forall>c \<in> set (cleanPhone phone). phoneChar c"
proof (cases "phone = []")
  case True
  then show ?thesis by (simp add: cleanPhone_def)
next
  case False
  have "set (js_trim (filter phoneChar (stripPhoneLabel phone)))
      \<subseteq> set (filter phoneChar (stripPhoneLabel phone))"
    by (rule set_mono_sublist) (rule js_trim_sublist)
  then show ?thesis
    using False by (auto simp: cleanPhone_def)
qed

lemma cleanTitle_normal:
  "(\<forall>c \<in> set (cleanTitle title). isSpace c \<longrightarrow> c = CHR '' '') \<and>
   \<not> sublist ''  '' (cleanTitle title) \<and>
   (cleanTitle title = [] \<or>
     (\<not> isSpace (hd (cleanTitle title)) \<and> \<not> isSpace (last (cleanTitle title))))"
proof (cases "title = []")
  case True
  then show ?thesis by (simp add: cleanTitle_def)
next
  case False
  let ?m = "collapseSpaces (stripBullet title)"
  have c: "cleanTitle title = js_trim ?m"
    using False by (simp add: cleanTitle_def)
  have sub: "sublist (cleanTitle title) ?m"
    unfolding c by (rule js_trim_sublist)
  have n: "(\<forall>c \<in> set ?m. isSpace c \<longrightarrow> c = CHR '' '')" "\<not> sublist ''  '' ?m"
    using collapseSpaces_normal by blast+
  have "\<forall>c \<in> set (cleanTitle title). isSpace c \<longrightarrow> c = CHR '' ''"
    using n(1) set_mono_sublist [OF sub] by blast
  moreover have "\<not> sublist ''  '' (cleanTitle title)"
    using n(2) sub sublist_order.order_trans by blast
  moreover have "cleanTitle title = [] \<or>
      (\<not> isSpace (hd (cleanTitle title)) \<and> \<not> isSpace (last (cleanTitle title)))"
    unfolding c by (rule js_trim_ends)
  ultimately show ?thesis
    by blast
qed

section \<open>C1: the end-to-end scenario\<close>

text \<open>
  C1 (as amended). For a page whose Kansas extraction yields the one raw candidate with
  name "Dr. John Doe", title "Associate Professor", e-mail "jdoe@school.edu" and no profile
  link, and whose inventory of profile links is the one entry with href "/people/john-doe"
  and text "John Doe", the pipeline emits exactly one record: name "John Doe", profile link
  "/people/john-doe", extraction method "kansas", and e-mail confidence 0.5 with source
  "generic". The local part "jdoe" is none of "john.doe", "john.d" and "j.doe" and does not
  contain "john"; it contains "doe", which is the sixth pattern.
\<close>

theorem C1_scenario_record:
  "extractKansasStyle (this\<lparr>thisProfileLinks := scenarioLinks\<rparr>) clock [scenarioRow] =
     [\<lparr> recName = ''John Doe'', titles = [''Associate Professor''],
        recProfileLink = ''/people/john-doe'', recEmail = ''jdoe@school.edu'',
        emailConfidence = 0.5, emailSource = ''generic'', recPhone = [],
        university = thisUniversityName this, department = thisDepartmentName this,
        extractionMethod = ''kansas'', sourceUrl = thisPageUrl this, scrapedAt = clock 0 \<rparr>]"
  by (rule scenario_output)

text \<open>
  The outcome that the specification gives for the scenario, confidence 0.85 and source
  "name-matched", is not what the source computes: the one record that is emitted has
  confidence 0.5 and source "generic".
\<close>

theorem C1_counterexample:
  "length (extractKansasStyle scenarioExtractor scenarioClock [scenarioRow]) = 1 \<and>
   emailConfidence (extractKansasStyle scenarioExtractor scenarioClock [scenarioRow] ! 0) = 0.5 \<and>
   emailConfidence (extractKansasStyle scenarioExtractor scenarioClock [scenarioRow] ! 0) \<noteq> 0.85 \<and>
   emailSource (extractKansasStyle scenarioExtractor scenarioClock [scenarioRow] ! 0) = ''generic'' \<and>
   emailSource (extractKansasStyle scenarioExtractor scenarioClock [scenarioRow] ! 0) \<noteq> ''name-matched''"
  using scenario_output [of scenarioExtractor scenarioClock]
  by (simp add: scenarioExtractor_links)

section \<open>C2: the records that the processor emits\<close>

text \<open>
  C2. Every record that \<open>processFacultyData\<close> emits has a name that is not empty and is
  longer than 2, and its \<open>emailSource\<close> is "name-matched" exactly when its
  \<open>emailConfidence\<close> is greater than 0.5. What is emitted is, in the order of the input,
  the processed candidates whose cleaned name is longer than 2, so every candidate whose
  cleaned name has length at most 2 is dropped: a candidate named "Jo" gives nothing, one
  named "Jon" gives its record.
\<close>

theorem C2_emitted_records:
  "(\<forall>r \<in> set (processFacultyData this clock raw meth).
      recName r \<noteq> [] \<and> 2 < length (recName r) \<and>
      ((emailSource r = ''name-matched'') = (0.5 < emailConfidence r))) \<and>
   processFacultyData this clock raw meth =
     map (\<lambda>i. processPerson this meth (clock i) (raw ! i))
       (filter (\<lambda>i. 2 < length (cleanName (rawName (raw ! i)))) [0 ..< length raw]) \<and>
   processFacultyData this clock [person\<lparr>rawName := ''Jo''\<rparr>] meth = [] \<and>
   processFacultyData this clock [person\<lparr>rawName := ''Jon''\<rparr>] meth =
     [processPerson this meth (clock 0) (person\<lparr>rawName := ''Jon''\<rparr>)]"
proof -
  have "\<forall>r \<in> set (processFacultyData this clock raw meth).
      recName r \<noteq> [] \<and> 2 < length (recName r) \<and>
      ((emailSource r = ''name-matched'') = (0.5 < emailConfidence r))"
    by (auto simp: processFacultyData_def emailSource_processPerson)
  moreover have "processFacultyData this clock [person\<lparr>rawName := ''Jo''\<rparr>] meth = []"
    by (simp add: processFacultyData_def cleanName_Jo)
  moreover have "processFacultyData this clock [person\<lparr>rawName := ''Jon''\<rparr>] meth =
     [processPerson this meth (clock 0) (person\<lparr>rawName := ''Jon''\<rparr>)]"
    by (simp add: processFacultyData_def cleanName_Jon)
  ultimately show ?thesis
    using processFacultyData_filter [of this clock raw meth] by blast
qed

text \<open>The scenario's row is emitted, and its record has the two properties.\<close>

theorem C2_emitted_records_witness:
  "processFacultyData scenarioExtractor scenarioClock [scenarioRow] ''kansas'' ! 0
     \<in> set (processFacultyData scenarioExtractor scenarioClock [scenarioRow] ''kansas'') \<and>
   2 < length (recName (processFacultyData scenarioExtractor scenarioClock [scenarioRow] ''kansas'' ! 0)) \<and>
   (emailSource (processFacultyData scenarioExtractor scenarioClock [scenarioRow] ''kansas'' ! 0)
      = ''name-matched'') =
   (0.5 < emailConfidence (processFacultyData scenarioExtractor scenarioClock [scenarioRow] ''kansas'' ! 0))"
proof -
  have "length (processFacultyData scenarioExtractor scenarioClock [scenarioRow] ''kansas'') = 1"
    by (simp add: processFacultyData_def scenarioRow_def cleanName_John_Doe)
  then have "processFacultyData scenarioExtractor scenarioClock [scenarioRow] ''kansas'' ! 0
     \<in> set (processFacultyData scenarioExtractor scenarioClock [scenarioRow] ''kansas'')"
    by (simp del: One_nat_def)
  then show ?thesis
    using C2_emitted_records [of scenarioExtractor scenarioClock "[scenarioRow]" "''kansas''"]
    by blast
qed

section \<open>C3: the order of the patterns\<close>

text \<open>
  C3. For a cleaned name whose split on white space leaves at least 2 tokens longer than 1:
  an e-mail whose local part, in lower case, is first.last scores exactly 0.95, be the
  first and the last of these tokens taken in lower case, as the scorer takes them, or as
  they are written; and for every e-mail that is not empty and not shorter than 5 the
  score is that of the first pattern that matches, in the order first.last (0.95),
  first.l (0.85), f.last (0.85), contains both (0.75), contains the first (0.6), contains
  the last (0.5), and 0.1 if none matches.
\<close>

theorem C3_pattern_order:
  assumes "name = cleanName raw"
    and "tokens = filter (\<lambda>t. 1 < length t) (whitespaceTokens (toLowerCase name))"
    and "2 \<le> length tokens"
    and "emailLocal = toLowerCase (takeWhile (\<lambda>c. c \<noteq> CHR ''@'') email)"
  shows
  "(emailLocal = hd tokens @ ''.'' @ last tokens \<longrightarrow> calculateEmailConfidence name email = 0.95) \<and>
   (emailLocal = hd (filter (\<lambda>t. 1 < length t) (whitespaceTokens name)) @ ''.'' @
        last (filter (\<lambda>t. 1 < length t) (whitespaceTokens name)) \<longrightarrow>
      calculateEmailConfidence name email = 0.95) \<and>
   (email \<noteq> [] \<and> 5 \<le> length email \<longrightarrow>
      calculateEmailConfidence name email =
        (if emailLocal = hd tokens @ ''.'' @ last tokens then 0.95
         else if emailLocal = hd tokens @ ''.'' @ [hd (last tokens)] then 0.85
         else if emailLocal = [hd (hd tokens)] @ ''.'' @ last tokens then 0.85
         else if sublist (hd tokens) emailLocal \<and> sublist (last tokens) emailLocal then 0.75
         else if sublist (hd tokens) emailLocal then 0.6
         else if sublist (last tokens) emailLocal then 0.5
         else 0.1))"
proof -
  have parts: "tokens = filter (\<lambda>t. 1 < length t) (js_split CHR '' '' (toLowerCase name))"
    using assms(1,2) cleaned_tokens [of raw] by simp
  have name: "name \<noteq> []"
  proof
    assume "name = []"
    then have "tokens = []"
      using parts by (simp add: js_split_def toLowerCase_def)
    then show False
      using assms(3) by simp
  qed
  have cascade: "calculateEmailConfidence name email =
        (if emailLocal = hd tokens @ ''.'' @ last tokens then 0.95
         else if emailLocal = hd tokens @ ''.'' @ [hd (last tokens)] then 0.85
         else if emailLocal = [hd (hd tokens)] @ ''.'' @ last tokens then 0.85
         else if sublist (hd tokens) emailLocal \<and> sublist (last tokens) emailLocal then 0.75
         else if sublist (hd tokens) emailLocal then 0.6
         else if sublist (last tokens) emailLocal then 0.5
         else 0.1)"
    if "email \<noteq> []" "5 \<le> length email"
    using name that parts assms(3,4) by (rule confidence_cascade)
  have exact: "calculateEmailConfidence name email = 0.95"
    if e: "emailLocal = hd tokens @ ''.'' @ last tokens"
  proof -
    have ne: "tokens \<noteq> []"
      using assms(3) by auto
    then have "hd tokens \<in> set tokens" "last tokens \<in> set tokens"
      by simp_all
    then have "1 < length (hd tokens)" "1 < length (last tokens)"
      unfolding parts by auto
    then have "5 \<le> length emailLocal"
      using e by simp
    moreover have "length emailLocal \<le> length email"
      unfolding assms(4) by (simp add: toLowerCase_def length_takeWhile_le)
    ultimately have "5 \<le> length email" "email \<noteq> []"
      by auto
    then show ?thesis
      using cascade e by simp
  qed
  have "calculateEmailConfidence name email = 0.95"
    if e: "emailLocal = hd (filter (\<lambda>t. 1 < length t) (whitespaceTokens name)) @ ''.'' @
        last (filter (\<lambda>t. 1 < length t) (whitespaceTokens name))"
  proof -
    have "tokens = map toLowerCase (filter (\<lambda>t. 1 < length t) (whitespaceTokens name))"
      unfolding assms(2) by (rule usable_lower)
    then have "filter (\<lambda>t. 1 < length t) (whitespaceTokens name) \<noteq> []"
      using assms(3) by auto
    then have "emailLocal = hd tokens @ ''.'' @ last tokens"
      unfolding assms(2) using assms(4) e by (intro raw_tokens_folded [OF refl]) 
    then show ?thesis
      by (rule exact)
  qed
  then show ?thesis
    using cascade exact by blast
qed

text \<open>The scenario's name with a first.last address, and with the address of the scenario.\<close>

theorem C3_pattern_order_witness:
  "calculateEmailConfidence (cleanName ''Dr. John Doe'') ''John.Doe@school.edu'' = 0.95 \<and>
   calculateEmailConfidence (cleanName ''Dr. John Doe'') ''jdoe@school.edu'' = 0.5"
proof -
  have t: "[''john'', ''doe''] =
      filter (\<lambda>t. 1 < length t) (whitespaceTokens (toLowerCase (cleanName ''Dr. John Doe'')))"
    unfolding cleanName_John_Doe by code_simp
  have two: "2 \<le> length [''john'', ''doe'']"
    by simp
  have l1: "''john.doe'' = toLowerCase (takeWhile (\<lambda>c. c \<noteq> CHR ''@'') ''John.Doe@school.edu'')"
    by code_simp
  have l2: "''jdoe'' = toLowerCase (takeWhile (\<lambda>c. c \<noteq> CHR ''@'') ''jdoe@school.edu'')"
    by code_simp
  have s: "\<not> sublist ''john'' ''jdoe''" "sublist ''doe'' ''jdoe''"
    unfolding js_includes_sublist [symmetric] by simp_all
  show ?thesis
    using C3_pattern_order [OF refl t two l1] C3_pattern_order [OF refl t two l2] s
    by simp
qed

section \<open>C4: the soft failures of the scorer\<close>

text \<open>
  C4. \<open>calculateEmailConfidence\<close> returns exactly 0.1 whenever the name is empty, the
  e-mail is empty, or the e-mail is shorter than 5. Otherwise, for a cleaned name, which is
  what the scorer is given, after splitting the name on white space and discarding the
  tokens of length at most 1, it returns exactly 0.3 whenever fewer than 2 tokens remain.
  (The source splits at the space U+0020, which is all the white space that a cleaned name
  has; for any name, cleaned or not, the same holds with the split at the space.)
\<close>

theorem C4_soft_failures:
  "(name = [] \<or> email = [] \<or> length email < 5 \<longrightarrow> calculateEmailConfidence name email = 0.1) \<and>
   (name \<noteq> [] \<and> email \<noteq> [] \<and> 5 \<le> length email \<and>
      length (filter (\<lambda>part. 1 < length part) (js_split CHR '' '' name)) < 2 \<longrightarrow>
    calculateEmailConfidence name email = 0.3) \<and>
   (name = cleanName raw \<and> name \<noteq> [] \<and> email \<noteq> [] \<and> 5 \<le> length email \<and>
      length (filter (\<lambda>part. 1 < length part) (whitespaceTokens name)) < 2 \<longrightarrow>
    calculateEmailConfidence name email = 0.3)"
proof -
  have 1: "calculateEmailConfidence name email = 0.1"
    if "name = [] \<or> email = [] \<or> length email < 5"
    using that by (auto simp: calculateEmailConfidence_def)
  have 2: "calculateEmailConfidence name email = 0.3"
    if "name \<noteq> []" "email \<noteq> []" "5 \<le> length email"
      "length (filter (\<lambda>part. 1 < length part) (js_split CHR '' '' name)) < 2"
    using that length_usable_lower [of name]
    by (simp add: calculateEmailConfidence_def Let_def)
  have 3: "calculateEmailConfidence name email = 0.3"
    if "name = cleanName raw" "name \<noteq> []" "email \<noteq> []" "5 \<le> length email"
      "length (filter (\<lambda>part. 1 < length part) (whitespaceTokens name)) < 2"
    using that 2 cleaned_tokens_raw [of raw] by simp
  show ?thesis
    using 1 2 3 by blast
qed

text \<open>An empty name, a short e-mail, and a name of one token, as it is and cleaned.\<close>

theorem C4_soft_failures_witness:
  "calculateEmailConfidence [] ''jdoe@school.edu'' = 0.1 \<and>
   calculateEmailConfidence ''John Doe'' ''a@b'' = 0.1 \<and>
   calculateEmailConfidence ''Madonna'' ''madonna@school.edu'' = 0.3 \<and>
   calculateEmailConfidence (cleanName ''Dr. Madonna'') ''madonna@school.edu'' = 0.3"
proof -
  have a: "length (filter (\<lambda>part. 1 < length part) (js_split CHR '' '' ''Madonna'')) < 2"
    by code_simp
  have b: "length (filter (\<lambda>part. 1 < length part) (whitespaceTokens (cleanName ''Dr. Madonna''))) < 2"
    unfolding cleanName_Madonna by code_simp
  have c: "cleanName ''Dr. Madonna'' \<noteq> []"
    unfolding cleanName_Madonna by simp
  have "calculateEmailConfidence (cleanName ''Dr. Madonna'') ''madonna@school.edu'' = 0.3"
    using C4_soft_failures [of "cleanName ''Dr. Madonna''" "''madonna@school.edu''" "''Dr. Madonna''"]
      b c by simp
  then show ?thesis
    using a C4_soft_failures [of "[]" "''jdoe@school.edu''"]
      C4_soft_failures [of "''John Doe''" "''a@b''"]
      C4_soft_failures [of "''Madonna''" "''madonna@school.edu''"]
    by simp
qed

section \<open>C5: detection and dispatch\<close>

lemma detectAndExtract_priority:
  \<open>detectAndExtract page =
     (if page ''.views-row'' then ExtractKansasStyle
      else if page ''div[class*="person"], .person-card, .faculty-card'' then ExtractIllinoisStyle
      else if page ''a[href*=".php"], table tr'' then ExtractUtahStyle
      else ExtractTabularStyle)\<close>
  by (simp add: detectAndExtract_def)

lemma detectAndExtract_not_inherited: "detectAndExtract page \<noteq> ObjectPrototypeMember k"
  by (simp add: detectAndExtract_def)

lemma requestHandler_named:
  "requestHandler ''kansas'' page = ExtractKansasStyle"
  "requestHandler ''illinois'' page = ExtractIllinoisStyle"
  "requestHandler ''utah'' page = ExtractUtahStyle"
  "requestHandler ''tabular'' page = ExtractTabularStyle"
  "requestHandler ''auto'' page = detectAndExtract page"
  by (simp_all add: requestHandler_def methodMap_def)

lemma requestHandler_fallback:
  "m \<notin> set (map fst methodMap) \<Longrightarrow> m \<notin> set objectPrototypeKeys \<Longrightarrow>
   requestHandler m page = detectAndExtract page"
  by (auto simp: requestHandler_def map_of_eq_None_iff[THEN iffD2] split: option.splits)

text \<open>
  C5. The detection is a total, deterministic choice in the fixed order Kansas, Illinois,
  Utah, Tabular (\<open>detectAndExtract_priority\<close>), the four names and \<open>auto\<close> dispatch as
  they should (\<open>requestHandler_named\<close>), and a name that is neither a key of \<open>methodMap\<close>
  nor a member of \<open>Object.prototype\<close> falls back to the detection
  (\<open>requestHandler_fallback\<close>). The override \<open>constructor\<close> is not one of the four
  names, and it does not fall back: \<open>methodMap['constructor']\<close> is the inherited
  \<open>Object\<close> function, which is truthy, so the handler calls it and no extractor runs.
\<close>

theorem C5_inherited_member_dispatch:
  "requestHandler ''constructor'' page = ObjectPrototypeMember ''constructor'' \<and>
   requestHandler ''constructor'' page \<noteq> detectAndExtract page"
proof -
  have "requestHandler ''constructor'' page = ObjectPrototypeMember ''constructor''"
    by (simp add: requestHandler_def methodMap_def objectPrototypeKeys_def)
  then show ?thesis
    using detectAndExtract_not_inherited [of page "''constructor''"] by simp
qed

section \<open>C6: the profile link resolver\<close>

lemma findProfileLink_unfold:
  "name \<noteq> [] \<Longrightarrow> links \<noteq> [] \<Longrightarrow>
   findProfileLink name links =
     (case List.find (textMatch name) links of
        Some e \<Rightarrow> href e
      | None \<Rightarrow>
          (case List.find (urlMatch (js_split CHR '' '' (toLowerCase name) ! 0)
                  (last (js_split CHR '' '' (toLowerCase name)))) links of
             Some e \<Rightarrow> href e
           | None \<Rightarrow> []))"
proof -
  assume a: "name \<noteq> []" "links \<noteq> []"
  have l: "last (js_split CHR '' '' (toLowerCase name)) =
     js_split CHR '' '' (toLowerCase name) ! (length (js_split CHR '' '' (toLowerCase name)) - 1)"
    by (simp add: last_conv_nth js_split_def)
  show ?thesis
    unfolding findProfileLink_def Let_def l using a by simp
qed

text \<open>
  C6. For a name that is not empty, as every name is that the record processor resolves,
  \<open>findProfileLink\<close> returns the href of the first entry, in page order, whose text
  contains the name or is contained in it, case ignored; failing that, the href of the
  first entry whose href, in lower case, contains the first and the last token of the name,
  or first-last, or last-first; failing both, the empty string. For every name, the result
  is the empty string or the href of an entry of the list, and for the empty name it is
  the empty string. With the name "Jane Smith" and the one link of href "/people/jsmith"
  and text "Jane Smith" it returns "/people/jsmith"; with no entries it returns the empty
  string.
\<close>

theorem C6_three_steps:
  assumes "name \<noteq> []"
  shows
  "(\<forall>pre e post. links = pre @ e # post \<and> (\<forall>x \<in> set pre. \<not> textMatch name x) \<and> textMatch name e
      \<longrightarrow> findProfileLink name links = href e) \<and>
   (\<forall>pre e post. (\<forall>x \<in> set links. \<not> textMatch name x) \<and> links = pre @ e # post \<and>
      (\<forall>x \<in> set pre. \<not> urlMatch (js_split CHR '' '' (toLowerCase name) ! 0)
                          (last (js_split CHR '' '' (toLowerCase name))) x) \<and>
      urlMatch (js_split CHR '' '' (toLowerCase name) ! 0)
        (last (js_split CHR '' '' (toLowerCase name))) e
      \<longrightarrow> findProfileLink name links = href e) \<and>
   ((\<forall>x \<in> set links. \<not> textMatch name x \<and>
        \<not> urlMatch (js_split CHR '' '' (toLowerCase name) ! 0)
            (last (js_split CHR '' '' (toLowerCase name))) x)
      \<longrightarrow> findProfileLink name links = []) \<and>
   (findProfileLink name links = [] \<or> findProfileLink name links \<in> href ` set links) \<and>
   textMatch name link =
     (sublist (toLowerCase name) (toLowerCase (linkText link)) \<or>
      sublist (toLowerCase (linkText link)) (toLowerCase name)) \<and>
   urlMatch f l link =
     ((sublist f (toLowerCase (href link)) \<and> sublist l (toLowerCase (href link))) \<or>
      sublist (f @ ''-'' @ l) (toLowerCase (href link)) \<or>
      sublist (l @ ''-'' @ f) (toLowerCase (href link))) \<and>
   findProfileLink ''Jane Smith''
     [\<lparr> href = ''/people/jsmith'', linkText = ''Jane Smith'', linkTitle = [] \<rparr>] = ''/people/jsmith'' \<and>
   findProfileLink name [] = [] \<and>
   findProfileLink [] links = []"
proof -
  let ?u = "urlMatch (js_split CHR '' '' (toLowerCase name) ! 0)
              (last (js_split CHR '' '' (toLowerCase name)))"
  have step1: "findProfileLink name links = href e"
    if "links = pre @ e # post" "\<forall>x \<in> set pre. \<not> textMatch name x" "textMatch name e"
    for pre e post
  proof -
    have "List.find (textMatch name) links = Some e"
      using that by (intro find_first) auto
    moreover have "links \<noteq> []" using that by simp
    ultimately show ?thesis
      using assms by (simp add: findProfileLink_unfold)
  qed
  have step2: "findProfileLink name links = href e"
    if "\<forall>x \<in> set links. \<not> textMatch name x" "links = pre @ e # post"
       "\<forall>x \<in> set pre. \<not> ?u x" "?u e"
    for pre e post
  proof -
    have "List.find (textMatch name) links = None"
      using that(1) by (simp add: find_None_iff)
    moreover have "List.find ?u links = Some e"
      using that by (intro find_first) auto
    moreover have "links \<noteq> []" using that by simp
    ultimately show ?thesis
      using assms by (simp add: findProfileLink_unfold)
  qed
  have step3: "findProfileLink name links = []"
    if "\<forall>x \<in> set links. \<not> textMatch name x \<and> \<not> ?u x"
  proof (cases "links = []")
    case True
    then show ?thesis by (simp add: findProfileLink_def)
  next
    case False
    have "List.find (textMatch name) links = None" "List.find ?u links = None"
      using that by (simp_all add: find_None_iff)
    then show ?thesis
      using assms False by (simp add: findProfileLink_unfold)
  qed
  have honest: "findProfileLink name links = [] \<or> findProfileLink name links \<in> href ` set links"
  proof (cases "links = []")
    case True
    then show ?thesis by (simp add: findProfileLink_def)
  next
    case False
    show ?thesis
      using assms False
      by (auto simp: findProfileLink_unfold split: option.splits dest!: find_Some_iff[THEN iffD1]
          intro!: imageI)
  qed
  have ex: "findProfileLink ''Jane Smith''
     [\<lparr> href = ''/people/jsmith'', linkText = ''Jane Smith'', linkTitle = [] \<rparr>] = ''/people/jsmith''"
    by code_simp
  have tm: "textMatch name link =
     (sublist (toLowerCase name) (toLowerCase (linkText link)) \<or>
      sublist (toLowerCase (linkText link)) (toLowerCase name))"
    by (simp add: textMatch_def js_includes_sublist)
  have um: "urlMatch f l link =
     ((sublist f (toLowerCase (href link)) \<and> sublist l (toLowerCase (href link))) \<or>
      sublist (f @ ''-'' @ l) (toLowerCase (href link)) \<or>
      sublist (l @ ''-'' @ f) (toLowerCase (href link)))"
    by (simp add: urlMatch_def js_includes_sublist Let_def)
  have e: "findProfileLink name [] = []" "findProfileLink [] links = []"
    by (simp_all add: findProfileLink_def)
  show ?thesis
    using step1 step2 step3 honest ex tm um e by blast
qed

text \<open>The three steps on the examples: a text match, a match in the URL, no match.\<close>

theorem C6_three_steps_witness:
  "findProfileLink ''Jane Smith'' [janeLink] = ''/people/jsmith'' \<and>
   findProfileLink ''John Doe'' [slugLink] = ''/people/john-doe'' \<and>
   findProfileLink ''Jane Smith'' [slugLink] = []"
proof -
  have 1: "textMatch ''Jane Smith'' janeLink" by code_simp
  have 2: "\<not> textMatch ''John Doe'' slugLink" by code_simp
  have 3: "urlMatch (js_split CHR '' '' (toLowerCase ''John Doe'') ! 0)
             (last (js_split CHR '' '' (toLowerCase ''John Doe''))) slugLink" by code_simp
  have 4: "\<not> textMatch ''Jane Smith'' slugLink" by code_simp
  have 5: "\<not> urlMatch (js_split CHR '' '' (toLowerCase ''Jane Smith'') ! 0)
             (last (js_split CHR '' '' (toLowerCase ''Jane Smith''))) slugLink" by code_simp
  have a: "findProfileLink ''Jane Smith'' [janeLink] = href janeLink"
  proof -
    have n: "''Jane Smith'' \<noteq> []" by simp
    from C6_three_steps [OF n, where links = "[janeLink]"]
    have "[janeLink] = [] @ janeLink # [] \<and> (\<forall>x \<in> set []. \<not> textMatch ''Jane Smith'' x) \<and>
            textMatch ''Jane Smith'' janeLink
          \<longrightarrow> findProfileLink ''Jane Smith'' [janeLink] = href janeLink"
      by blast
    then show ?thesis using 1 by simp
  qed
  have b: "findProfileLink ''John Doe'' [slugLink] = href slugLink"
  proof -
    have n: "''John Doe'' \<noteq> []" by simp
    from C6_three_steps [OF n, where links = "[slugLink]"]
    have "(\<forall>x \<in> set [slugLink]. \<not> textMatch ''John Doe'' x) \<and> [slugLink] = [] @ slugLink # [] \<and>
          (\<forall>x \<in> set []. \<not> urlMatch (js_split CHR '' '' (toLowerCase ''John Doe'') ! 0)
                          (last (js_split CHR '' '' (toLowerCase ''John Doe''))) x) \<and>
          urlMatch (js_split CHR '' '' (toLowerCase ''John Doe'') ! 0)
            (last (js_split CHR '' '' (toLowerCase ''John Doe''))) slugLink
          \<longrightarrow> findProfileLink ''John Doe'' [slugLink] = href slugLink"
      by blast
    then show ?thesis using 2 3 by simp
  qed
  have c: "findProfileLink ''Jane Smith'' [slugLink] = []"
  proof -
    have n: "''Jane Smith'' \<noteq> []" by simp
    from C6_three_steps [OF n, where links = "[slugLink]"]
    have "(\<forall>x \<in> set [slugLink]. \<not> textMatch ''Jane Smith'' x \<and>
        \<not> urlMatch (js_split CHR '' '' (toLowerCase ''Jane Smith'') ! 0)
            (last (js_split CHR '' '' (toLowerCase ''Jane Smith''))) x)
      \<longrightarrow> findProfileLink ''Jane Smith'' [slugLink] = []"
      by blast
    then show ?thesis using 4 5 by simp
  qed
  show ?thesis
    using a b c by (simp add: janeLink_def slugLink_def)
qed

section \<open>C7: what cleanName strips\<close>



section \<open>C8: totality\<close>

text \<open>
  C8 (as amended). The four cleaners, the scorer, the resolver and \<open>getDepartmentName\<close>
  return a value on every input and never raise: the three places of the scorer where
  \<open>undefined\<close> could be dereferenced are never reached with \<open>undefined\<close>, and the other
  six have no such place. What they return is neutral: a score among the seven of the
  scorer, the empty string or the href of an entry, one of the department phrases, a name
  and a title with single spaces only and none at the ends, a phone of phone characters
  only, the empty string for an e-mail without \<open>@\<close>, and the empty string, 0.1 or
  "Music Department" on empty input. \<open>getUniversityName\<close> returns a value
  exactly when the URL constructor accepts the URL, and raises its \<open>TypeError\<close> when it
  does not.
\<close>

theorem C8_total_operations:
  "getUniversityName (Inl TypeError) pageTitle = Inl TypeError \<and>
   ((\<exists>v. getUniversityName outcome pageTitle = Inr v) \<longleftrightarrow> (\<exists>h. outcome = Inr h)) \<and>
   calculateEmailConfidenceChecked name email = Inr (calculateEmailConfidence name email) \<and>
   calculateEmailConfidence name email \<in> {0.1, 0.3, 0.5, 0.6, 0.75, 0.85, 0.95} \<and>
   (findProfileLink name links = [] \<or> findProfileLink name links \<in> href ` set links) \<and>
   getDepartmentName content \<in> set musicKeywords \<and>
   (\<forall>c \<in> set (cleanName raw). isSpace c \<longrightarrow> c = CHR '' '') \<and>
   (cleanName raw = [] \<or> (\<not> isSpace (hd (cleanName raw)) \<and> \<not> isSpace (last (cleanName raw)))) \<and>
   (\<forall>c \<in> set (cleanTitle title). isSpace c \<longrightarrow> c = CHR '' '') \<and>
   (cleanTitle title = [] \<or>
     (\<not> isSpace (hd (cleanTitle title)) \<and> \<not> isSpace (last (cleanTitle title)))) \<and>
   (\<forall>c \<in> set (cleanPhone phone). phoneChar c) \<and>
   (\<not> sublist ''@'' e \<longrightarrow> cleanEmail e = []) \<and>
   cleanName [] = [] \<and> cleanTitle [] = [] \<and> cleanEmail [] = [] \<and> cleanPhone [] = [] \<and>
   calculateEmailConfidence [] email = 0.1 \<and> calculateEmailConfidence name [] = 0.1 \<and>
   findProfileLink [] links = [] \<and> findProfileLink name [] = [] \<and>
   getDepartmentName [] = ''Music Department''"
proof -
  have d: "getDepartmentName [] = ''Music Department''"
    by code_simp
  have empty: "cleanName [] = []" "cleanTitle [] = []" "cleanEmail [] = []" "cleanPhone [] = []"
    "calculateEmailConfidence [] email = 0.1" "calculateEmailConfidence name [] = 0.1"
    "findProfileLink [] links = []" "findProfileLink name [] = []"
    by (simp_all add: cleanName_def cleanTitle_def cleanEmail_def cleanPhone_def
        calculateEmailConfidence_def findProfileLink_def)
  show ?thesis
    using getUniversityName_error [of TypeError pageTitle] getUniversityName_total [of outcome pageTitle]
      calculateEmailConfidenceChecked_eq [of name email] confidence_range [of name email]
      findProfileLink_honest [of name links] getDepartmentName_range [of content]
      cleanPhone_chars [of phone] cleanEmail_no_at [of e] d empty
      cleanName_normal [of raw] cleanTitle_normal [of title]
    by blast
qed

text \<open>A URL that parses, one that does not, an e-mail without \<open>@\<close>, and the checked scorer.\<close>

theorem C8_total_operations_witness:
  "(\<exists>v. getUniversityName hostnameOfSydney [] = Inr v) \<and>
   getUniversityName hostnameOfNotAUrl [] = Inl TypeError \<and>
   cleanEmail ''not-an-email'' = [] \<and>
   calculateEmailConfidenceChecked ''John Doe'' ''jdoe@school.edu'' = Inr 0.5"
proof -
  have a: "\<not> sublist ''@'' ''not-an-email''"
    unfolding js_includes_sublist [symmetric] by simp
  have b: "\<exists>h. hostnameOfSydney = Inr h"
    by (simp add: hostnameOfSydney_def)
  show ?thesis
    using C8_total_operations [where pageTitle = "[]" and outcome = hostnameOfSydney
        and name = "''John Doe''" and email = "''jdoe@school.edu''" and e = "''not-an-email''"]
      a b confidence_jdoe
    by (simp add: hostnameOfNotAUrl_def)
qed

text \<open>
  The string "not a url" has no scheme, so \<open>new URL(url)\<close> throws, and \<open>getUniversityName\<close>
  raises the error instead of returning a value.
\<close>

theorem C8_counterexample:
  "getUniversityName hostnameOfNotAUrl [] = Inl TypeError \<and>
   isl (getUniversityName hostnameOfNotAUrl [])"
  by (simp add: getUniversityName_def hostnameOfNotAUrl_def)

section \<open>C9: the name of the university\<close>

text \<open>
  C9 (as amended). With the host name that the URL constructor gives, \<open>getUniversityName\<close>
  returns the institution of the first fragment among kansas, illinois, utah, unf that the
  host name contains; if there is none and the page title contains "University", the
  trimmed match of \<open>.*?University[^|]*\<close>, which starts behind the last line terminator
  in front of the first "University" and runs up to, and not including, the next pipe;
  otherwise the host name with a leading "www." removed and then the first occurrence of
  ".edu" removed, wherever it stands.
\<close>

theorem C9_university_name:
  "getUniversityName (Inr hostname) pageTitle = Inr
     (if js_includes (toLowerCase hostname) ''kansas'' then ''University of Kansas''
      else if js_includes (toLowerCase hostname) ''illinois'' then ''University of Illinois''
      else if js_includes (toLowerCase hostname) ''utah'' then ''University of Utah''
      else if js_includes (toLowerCase hostname) ''unf'' then ''University of North Florida''
      else if js_includes pageTitle ''University''
        then js_trim (case matchUniversity pageTitle of Some m \<Rightarrow> m | None \<Rightarrow> [])
      else removeFirst ''.edu'' (stripWww (toLowerCase hostname))) \<and>
   (js_includes pageTitle ''University'' \<longrightarrow>
      (\<exists>a pre post b. pageTitle = a @ pre @ ''University'' @ post @ b \<and>
         matchUniversity pageTitle = Some (pre @ ''University'' @ post) \<and>
         (a = [] \<or> isLineTerminator (last a)) \<and> (\<forall>c \<in> set pre. \<not> isLineTerminator c) \<and>
         \<not> sublist ''University'' (pre @ ''Universit'') \<and> CHR ''|'' \<notin> set post \<and>
         (b = [] \<or> hd b = CHR ''|''))) \<and>
   stripWww d = (if prefix ''www.'' d then drop 4 d else d) \<and>
   (\<not> sublist ''.edu'' d \<longrightarrow> removeFirst ''.edu'' d = d) \<and>
   (\<not> sublist ''.edu'' (a0 @ ''.ed'') \<longrightarrow> removeFirst ''.edu'' (a0 @ ''.edu'' @ b0) = a0 @ b0)"
  using getUniversityName_Some [of hostname pageTitle] matchUniversity_shape [of pageTitle]
    removeFirst_absent [of "''.edu''" d] removeFirst_edu [of a0 b0] stripWww_def [of d]
  by blast

text \<open>
  One host for each of the three branches, the host of an Australian university, and a
  title with "University" in front of a pipe.
\<close>

theorem C9_university_name_witness:
  "getUniversityName hostnameOfKansas ''Faculty'' = Inr ''University of Kansas'' \<and>
   getUniversityName hostnameOfExample ''Faculty | Example University | Home''
     = Inr ''Faculty | Example University'' \<and>
   getUniversityName hostnameOfExample ''Faculty'' = Inr ''example'' \<and>
   getUniversityName hostnameOfSydney [] = Inr ''sydney.au'' \<and>
   removeFirst ''.edu'' ''sydney.au'' = ''sydney.au'' \<and>
   removeFirst ''.edu'' (''sydney'' @ ''.edu'' @ ''.au'') = ''sydney'' @ ''.au''"
proof -
  let ?r = "\<lambda>hostname pageTitle.
     (if js_includes (toLowerCase hostname) ''kansas'' then ''University of Kansas''
      else if js_includes (toLowerCase hostname) ''illinois'' then ''University of Illinois''
      else if js_includes (toLowerCase hostname) ''utah'' then ''University of Utah''
      else if js_includes (toLowerCase hostname) ''unf'' then ''University of North Florida''
      else if js_includes pageTitle ''University''
        then js_trim (case matchUniversity pageTitle of Some m \<Rightarrow> m | None \<Rightarrow> [])
      else removeFirst ''.edu'' (stripWww (toLowerCase hostname)))"
  have 1: "getUniversityName hostnameOfKansas ''Faculty'' = Inr (?r ''music.kansas.edu'' ''Faculty'')"
    unfolding hostnameOfKansas_def using C9_university_name by (rule conjunct1)
  have 2: "getUniversityName hostnameOfExample ''Faculty | Example University | Home''
      = Inr (?r ''www.example.edu'' ''Faculty | Example University | Home'')"
    unfolding hostnameOfExample_def using C9_university_name by (rule conjunct1)
  have 3: "getUniversityName hostnameOfExample ''Faculty'' = Inr (?r ''www.example.edu'' ''Faculty'')"
    unfolding hostnameOfExample_def using C9_university_name by (rule conjunct1)
  have 4: "getUniversityName hostnameOfSydney [] = Inr (?r ''www.sydney.edu.au'' [])"
    unfolding hostnameOfSydney_def using C9_university_name by (rule conjunct1)
  have e1: "?r ''music.kansas.edu'' ''Faculty'' = ''University of Kansas''" by code_simp
  have e2: "?r ''www.example.edu'' ''Faculty | Example University | Home''
      = ''Faculty | Example University''" by code_simp
  have e3: "?r ''www.example.edu'' ''Faculty'' = ''example''" by code_simp
  have e4: "?r ''www.sydney.edu.au'' [] = ''sydney.au''" by code_simp
  have n1: "\<not> sublist ''.edu'' ''sydney.au''" and n2: "\<not> sublist ''.edu'' (''sydney'' @ ''.ed'')"
    unfolding js_includes_sublist [symmetric] by simp_all
  have 5: "removeFirst ''.edu'' ''sydney.au'' = ''sydney.au''"
    using C9_university_name [where d = "''sydney.au''"] n1 by blast
  have 6: "removeFirst ''.edu'' (''sydney'' @ ''.edu'' @ ''.au'') = ''sydney'' @ ''.au''"
    using C9_university_name [where ?a0.0 = "''sydney''" and ?b0.0 = "''.au''"] n2 by blast
  show ?thesis
    unfolding 1 2 3 4 e1 e2 e3 e4 using 5 6 by simp
qed

text \<open>
  The host www.sydney.edu.au does not end in ".edu": with the trailing ".edu" stripped, as
  the specification has it, the result would be sydney.edu.au. The source removes the first
  ".edu" and returns sydney.au.
\<close>

theorem C9_counterexample:
  "getUniversityName hostnameOfSydney [] = Inr ''sydney.au'' \<and>
   stripTrailingEdu (stripWww (toLowerCase ''www.sydney.edu.au'')) = ''sydney.edu.au'' \<and>
   getUniversityName hostnameOfSydney []
     \<noteq> Inr (stripTrailingEdu (stripWww (toLowerCase ''www.sydney.edu.au'')))"
proof -
  have 1: "getUniversityName hostnameOfSydney [] = Inr ''sydney.au''"
    unfolding hostnameOfSydney_def by code_simp
  have 2: "stripTrailingEdu (stripWww (toLowerCase ''www.sydney.edu.au'')) = ''sydney.edu.au''"
    by code_simp
  show ?thesis
    unfolding 1 2 by simp
qed

section \<open>C10: honorifics at any position\<close>

text \<open>
  C10. For every input, an occurrence of an honorific token, in any mix of cases and at any
  position, with anything in front of it and anything behind it, is deleted by the first
  replacement of \<open>cleanName\<close>, and what stands in front and behind is scanned as if the
  occurrence were not there; it need not be a prefix nor a word of its own. "Professorship"
  is cleaned to "ship", and "John Dr. Doe" to "John Doe". (The scan is a single pass: what
  the deletion puts side by side is not scanned again, see \<open>cleanName_juxtaposed\<close>.)
\<close>

theorem C10_honorific_anywhere:
  "(toLowerCase h \<in> set honorifics \<longrightarrow>
      replaceAll matchHonorific [] (a @ h @ b) =
        replaceAll matchHonorific [] a @ replaceAll matchHonorific [] b \<and>
      cleanName (a @ h @ b) =
        js_trim (collapseSpaces (replaceAll matchSuffix []
          (replaceAll matchHonorific [] a @ replaceAll matchHonorific [] b)))) \<and>
   cleanName ''Professorship'' = ''ship'' \<and>
   cleanName ''John Dr. Doe'' = ''John Doe''"
  using removeHonorifics_occurrence [of h a b] cleanName_Professorship cleanName_middle
  by (simp add: cleanName_unfold)

text \<open>The token inside a longer word, in capitals.\<close>

theorem C10_honorific_anywhere_witness:
  "replaceAll matchHonorific [] (''Vice'' @ ''PROFESSOR'' @ ''ship'') =
     replaceAll matchHonorific [] ''Vice'' @ replaceAll matchHonorific [] ''ship'' \<and>
   cleanName ''Professorship'' = ''ship''"
proof -
  have 1: "toLowerCase ''PROFESSOR'' \<in> set honorifics"
    by code_simp
  show ?thesis
    using C10_honorific_anywhere [of "''PROFESSOR''" "''Vice''" "''ship''"] 1
    by blast
qed

end
